theory Spec2Isabelle
  imports Complex_Main "HOL-Library.Product_Lexorder" "HOL-Library.Multiset"
begin

section \<open>Data model of the scheduling engine\<close>

text \<open>
  The engine of \<^verbatim>\<open>src/utils/scheduling.ts\<close> works on plain in-memory data.
  JavaScript numbers that stand for hours and minutes are modelled as exact rationals,
  calendar dates (the strings \<^verbatim>\<open>YYYY-MM-DD\<close>, compared and stepped day by day)
  as the number of days since 1970-01-01, instants (\<^verbatim>\<open>Date.getTime()\<close>) as integer
  milliseconds, and clock times (the strings \<^verbatim>\<open>HH:MM\<close>, always read through
  \<^verbatim>\<open>timeStringToMinutes\<close> and written through \<^verbatim>\<open>minutesToTimeString\<close>)
  as minutes after midnight. The wall clock (\<^verbatim>\<open>new Date()\<close>,
  \<^verbatim>\<open>getLocalDateString()\<close>) is an explicit parameter.
\<close>

type_synonym hours = rat
type_synonym clocktime = rat
type_synonym day = int
type_synonym instant = int

datatype session_status = Scheduled | Completed | Skipped | Missed | Rescheduled

record StudySession =
  taskId :: string
  scheduledTime :: "day \<times> clocktime"
  startTime :: clocktime
  endTime :: clocktime
  allocatedHours :: hours
  sessionNumber :: int
  isFlexible :: bool
  status :: session_status
  done_flag :: bool
  isManualOverride :: "bool option"
  originalTime :: "clocktime option"
  originalDate :: "day option"
  rescheduledAt :: "instant option"

datatype plan_ident = PlanOfDate day | PlanNamed string

record StudyPlan =
  plan_id :: plan_ident
  date :: day
  plannedTasks :: "StudySession list"
  totalStudyHours :: hours
  availableHours :: hours
  isLocked :: bool

datatype task_status = Pending | TaskCompleted | TaskOther

record Task =
  task_id :: string
  title :: string
  estimatedHours :: hours
  deadline :: instant
  importance :: bool
  task_status :: task_status

text \<open>\<^verbatim>\<open>Task & { remainingHours: number }\<close>: the task with the hours still to place.\<close>

record TaskR =
  rtask :: Task
  remainingHours :: hours

datatype plan_mode = ModeEisenhower | ModeBalanced | ModeEven

record UserSettings =
  workDays :: "int list"
  dailyAvailableHours :: hours
  bufferDays :: int
  studyWindowStartHour :: rat
  studyWindowEndHour :: rat
  minSessionLength :: rat
  studyPlanMode :: plan_mode

record FixedCommitment =
  commitment_id :: string
  recurring :: bool
  daysOfWeek :: "int list"
  specificDates :: "day list option"
  deletedOccurrences :: "day list option"
  modifiedOccurrences :: "(day \<times> clocktime option \<times> clocktime option) list"
  commitStart :: clocktime
  commitEnd :: clocktime

record Clock =
  today :: day
  now :: instant

datatype strategy = FrontLoad | EvenLoad | BackLoad

definition msPerDay :: int where
  "msPerDay = 1000 * 60 * 60 * 24"

text \<open>\<^verbatim>\<open>Date.getDay()\<close>: 1970-01-01 was a Thursday (4).\<close>

definition getDay :: "day \<Rightarrow> int" where
  "getDay d = (d + 4) mod 7"

section \<open>Distribution strategies\<close>

text \<open>\<^verbatim>\<open>Math.round(x * 100) / 100\<close>; \<^verbatim>\<open>Math.round\<close> rounds halves up, as \<^const>\<open>round\<close> does.\<close>

definition round2 :: "rat \<Rightarrow> rat" where
  "round2 x = of_int (round (x * 100)) / 100"

text \<open>
  The remainder loop of \<^verbatim>\<open>distributeEvenly\<close>: it walks the days from the first and
  stops as soon as nothing is left to hand out.
\<close>

fun addRemainder :: "rat list \<Rightarrow> rat \<Rightarrow> rat list" where
  "addRemainder [] r = []"
| "addRemainder (x # xs) r =
     (if r > 0
      then (x + min (1/4) r) # addRemainder xs (round2 (r - min (1/4) r))
      else x # xs)"

definition distributeEvenly :: "hours \<Rightarrow> nat \<Rightarrow> hours list" where
  "distributeEvenly totalHours days =
     (let baseHours = of_int \<lfloor>(totalHours * 100) / of_nat days\<rfloor> / 100;
          remainder = round2 (totalHours - baseHours * of_nat days)
      in addRemainder (replicate days baseHours) remainder)"

text \<open>\<^verbatim>\<open>daily[i] || 0\<close>: a read past the end, or a zero, gives 0.\<close>

definition nth_or0 :: "rat list \<Rightarrow> nat \<Rightarrow> rat" where
  "nth_or0 xs i = (if i < length xs then xs ! i else 0)"

text \<open>
  \<^verbatim>\<open>for (i = 0; i < n; i++) distribution[off + i] = daily[i] || 0\<close>. The indices
  written are below \<^verbatim>\<open>days\<close> in every call (lemma \<open>thirds_in_range\<close>), where the
  list update is the array assignment.
\<close>

definition writeThird :: "rat list \<Rightarrow> nat \<Rightarrow> rat list \<Rightarrow> nat \<Rightarrow> rat list" where
  "writeThird distribution off daily n =
     fold (\<lambda>i d. d[off + i := nth_or0 daily i]) [0..<n] distribution"

definition ceilDiv :: "nat \<Rightarrow> nat \<Rightarrow> nat" where
  "ceilDiv a b = nat \<lceil>(of_nat a :: rat) / of_nat b\<rceil>"

definition distributeThirds :: "rat \<Rightarrow> rat \<Rightarrow> rat \<Rightarrow> hours \<Rightarrow> nat \<Rightarrow> hours list" where
  "distributeThirds w1 w2 w3 totalHours days =
     (let distribution = replicate days 0;
          firstThird = ceilDiv days 3;
          secondThird = ceilDiv (days * 2) 3;
          firstThirdHours = totalHours * w1;
          secondThirdHours = totalHours * w2;
          finalThirdHours = totalHours * w3;
          distribution = writeThird distribution 0 (distributeEvenly firstThirdHours firstThird) firstThird;
          secondThirdDays = secondThird - firstThird;
          distribution =
            (if secondThirdDays > 0
             then writeThird distribution firstThird
                    (distributeEvenly secondThirdHours secondThirdDays) secondThirdDays
             else distribution);
          finalThirdDays = days - secondThird;
          distribution =
            (if finalThirdDays > 0
             then writeThird distribution secondThird
                    (distributeEvenly finalThirdHours finalThirdDays) finalThirdDays
             else distribution)
      in distribution)"

text \<open>70% / 20% / 10% of the hours over the three thirds of the days.\<close>

definition distributeFrontLoad :: "hours \<Rightarrow> nat \<Rightarrow> hours list" where
  "distributeFrontLoad totalHours days = distributeThirds (7/10) (2/10) (1/10) totalHours days"

text \<open>10% / 20% / 70%.\<close>

definition distributeBackLoad :: "hours \<Rightarrow> nat \<Rightarrow> hours list" where
  "distributeBackLoad totalHours days = distributeThirds (1/10) (2/10) (7/10) totalHours days"

definition calculateDailyHoursDistribution :: "hours \<Rightarrow> nat \<Rightarrow> strategy \<Rightarrow> hours list" where
  "calculateDailyHoursDistribution totalHours availableDays strat =
     (if availableDays = 0 then []
      else case strat of
             FrontLoad \<Rightarrow> distributeFrontLoad totalHours availableDays
           | BackLoad \<Rightarrow> distributeBackLoad totalHours availableDays
           | EvenLoad \<Rightarrow> distributeEvenly totalHours availableDays)"

text \<open>Auxiliary for the proofs about the thirds: a third that has no day gets no hours.\<close>

definition thirdPart :: "hours \<Rightarrow> nat \<Rightarrow> hours list" where
  "thirdPart h n = (if n > 0 then distributeEvenly h n else [])"

section \<open>Availability engine\<close>

text \<open>\<^verbatim>\<open>studyPlans.find(plan => plan.date === date)\<close>: the first plan of that date.\<close>

definition planForDate :: "day \<Rightarrow> StudyPlan list \<Rightarrow> StudyPlan option" where
  "planForDate d plans = find (\<lambda>p. date p = d) plans"

text \<open>\<^verbatim>\<open>dayPlan?.isLocked\<close>.\<close>

definition dayIsLocked :: "day \<Rightarrow> StudyPlan list \<Rightarrow> bool" where
  "dayIsLocked d plans = (case planForDate d plans of None \<Rightarrow> False | Some p \<Rightarrow> isLocked p)"

definition inOptList :: "'a \<Rightarrow> 'a list option \<Rightarrow> bool" where
  "inOptList x xs = (case xs of None \<Rightarrow> False | Some ys \<Rightarrow> x \<in> set ys)"

text \<open>
  The busy interval a fixed commitment contributes on a date, after the per-date
  deletion and override.
\<close>

definition commitmentInterval :: "day \<Rightarrow> FixedCommitment \<Rightarrow> (rat \<times> rat) option" where
  "commitmentInterval d c =
     (let shouldInclude =
            (if recurring c \<and> getDay d \<in> set (daysOfWeek c) then True
             else if \<not> recurring c \<and> inOptList d (specificDates c) then True
             else False)
      in if shouldInclude \<and> \<not> inOptList d (deletedOccurrences c)
         then (let modifiedSession = map_of (modifiedOccurrences c) d;
                   st = (case modifiedSession of Some (Some s, _) \<Rightarrow> s | _ \<Rightarrow> commitStart c);
                   en = (case modifiedSession of Some (_, Some e) \<Rightarrow> e | _ \<Rightarrow> commitEnd c)
               in Some (st, en))
         else None)"

definition commitmentIntervals :: "day \<Rightarrow> FixedCommitment list \<Rightarrow> (rat \<times> rat) list" where
  "commitmentIntervals d fcs = List.map_filter (commitmentInterval d) fcs"

text \<open>One round of the merging loop over the sorted busy intervals.\<close>

definition mergeStep :: "(rat \<times> rat) \<Rightarrow> (rat \<times> rat) list \<Rightarrow> (rat \<times> rat) list" where
  "mergeStep interval mergedIntervals =
     (if mergedIntervals = [] \<or> snd (last mergedIntervals) < fst interval
      then mergedIntervals @ [interval]
      else butlast mergedIntervals
           @ [(fst (last mergedIntervals), max (snd (last mergedIntervals)) (snd interval))])"

definition mergeBusy :: "(rat \<times> rat) list \<Rightarrow> (rat \<times> rat) list" where
  "mergeBusy busyIntervals = fold mergeStep (sort_key fst busyIntervals) []"

record TimeSlot =
  slot_start :: clocktime
  slot_end :: clocktime
  duration :: hours

text \<open>\<^verbatim>\<open>settings.minSessionLength || 15\<close>.\<close>

definition minSessionOr15 :: "UserSettings \<Rightarrow> rat" where
  "minSessionOr15 st = (if minSessionLength st = 0 then 15 else minSessionLength st)"

text \<open>One round of the loop that turns the gaps between busy intervals into slots.\<close>

definition gapStep :: "UserSettings \<Rightarrow> (rat \<times> rat) \<Rightarrow> rat \<times> TimeSlot list \<Rightarrow> rat \<times> TimeSlot list" where
  "gapStep st interval acc =
     (let currentTime = fst acc; availableSlots = snd acc;
          availableSlots =
            (if fst interval > currentTime
             then (let dur = (fst interval - currentTime) / 60
                   in if dur \<ge> minSessionOr15 st / 60
                      then availableSlots
                           @ [\<lparr>slot_start = currentTime, slot_end = fst interval, duration = dur\<rparr>]
                      else availableSlots)
             else availableSlots)
      in (max currentTime (snd interval), availableSlots))"

definition getDailyAvailableTimeSlots ::
  "day \<Rightarrow> StudyPlan list \<Rightarrow> UserSettings \<Rightarrow> FixedCommitment list \<Rightarrow> TimeSlot list" where
  "getDailyAvailableTimeSlots d studyPlans st fixedCommitments =
     (let dayPlan = planForDate d studyPlans
      in if (case dayPlan of None \<Rightarrow> False | Some p \<Rightarrow> isLocked p) then []
         else
           (let existingSessions =
                  (case dayPlan of None \<Rightarrow> []
                   | Some p \<Rightarrow> filter (\<lambda>s. status s \<noteq> Skipped) (plannedTasks p));
                busyIntervals = map (\<lambda>s. (startTime s, endTime s)) existingSessions
                                @ commitmentIntervals d fixedCommitments;
                mergedIntervals = mergeBusy busyIntervals;
                studyWindowStart = studyWindowStartHour st * 60;
                studyWindowEnd = studyWindowEndHour st * 60;
                acc = fold (gapStep st) mergedIntervals (studyWindowStart, []);
                currentTime = fst acc; availableSlots = snd acc
            in if currentTime < studyWindowEnd
               then (let dur = (studyWindowEnd - currentTime) / 60
                     in if dur \<ge> minSessionOr15 st / 60
                        then availableSlots
                             @ [\<lparr>slot_start = currentTime, slot_end = studyWindowEnd, duration = dur\<rparr>]
                        else availableSlots)
               else availableSlots))"

text \<open>\<^verbatim>\<open>addHoursToTime\<close>.\<close>

definition addHoursToTime :: "clocktime \<Rightarrow> hours \<Rightarrow> clocktime" where
  "addHoursToTime t h = t + h * 60"

text \<open>
  The body of the day loop of \<^verbatim>\<open>findNextAvailableTimeSlot\<close> for one date: nothing
  on a non-work day or a locked day, else the first free window that is long enough.
\<close>

definition slotOnDay ::
  "hours \<Rightarrow> day \<Rightarrow> StudyPlan list \<Rightarrow> UserSettings \<Rightarrow> FixedCommitment list
   \<Rightarrow> (day \<times> clocktime \<times> clocktime) option" where
  "slotOnDay requiredHours d studyPlans st fixedCommitments =
     (if getDay d \<notin> set (workDays st) then None
      else if dayIsLocked d studyPlans then None
      else case find (\<lambda>slot. duration slot \<ge> requiredHours)
                  (getDailyAvailableTimeSlots d studyPlans st fixedCommitments) of
             None \<Rightarrow> None
           | Some slot \<Rightarrow> Some (d, slot_start slot, addHoursToTime (slot_start slot) requiredHours))"

fun firstSlot ::
  "hours \<Rightarrow> StudyPlan list \<Rightarrow> UserSettings \<Rightarrow> FixedCommitment list \<Rightarrow> day list
   \<Rightarrow> (day \<times> clocktime \<times> clocktime) option" where
  "firstSlot requiredHours studyPlans st fcs [] = None"
| "firstSlot requiredHours studyPlans st fcs (d # ds) =
     (case slotOnDay requiredHours d studyPlans st fcs of
        Some r \<Rightarrow> Some r
      | None \<Rightarrow> firstSlot requiredHours studyPlans st fcs ds)"

text \<open>The dates \<open>startDate + 0, ..., startDate + (maxDaysToSearch - 1)\<close> are tried in order.\<close>

definition findNextAvailableTimeSlot ::
  "hours \<Rightarrow> day \<Rightarrow> StudyPlan list \<Rightarrow> UserSettings \<Rightarrow> FixedCommitment list \<Rightarrow> int
   \<Rightarrow> (day \<times> clocktime \<times> clocktime) option" where
  "findNextAvailableTimeSlot requiredHours startDate studyPlans st fcs maxDaysToSearch =
     firstSlot requiredHours studyPlans st fcs
       (map (\<lambda>dayOffset. startDate + int dayOffset) [0..<nat maxDaysToSearch])"

section \<open>Remaining-work accountant\<close>

text \<open>The sum a plan caches as \<^verbatim>\<open>totalStudyHours\<close>.\<close>

definition sumHours :: "StudySession list \<Rightarrow> hours" where
  "sumHours sessions = sum_list (map allocatedHours sessions)"

definition nonSkippedHours :: "StudySession list \<Rightarrow> hours" where
  "nonSkippedHours sessions = sumHours (filter (\<lambda>s. status s \<noteq> Skipped) sessions)"

definition sameKey :: "StudySession \<Rightarrow> StudySession \<Rightarrow> bool" where
  "sameKey session s = (taskId s = taskId session \<and> sessionNumber s = sessionNumber session)"

definition isSessionLocked :: "StudySession \<Rightarrow> StudyPlan list \<Rightarrow> bool" where
  "isSessionLocked session studyPlans =
     (case find (\<lambda>p. \<exists>s \<in> set (plannedTasks p). sameKey session s) studyPlans of
        None \<Rightarrow> False
      | Some p \<Rightarrow> isLocked p)"

definition taskSessions :: "string \<Rightarrow> StudyPlan list \<Rightarrow> StudySession list" where
  "taskSessions tid studyPlans =
     concat (map (\<lambda>p. filter (\<lambda>s. taskId s = tid) (plannedTasks p)) studyPlans)"

definition accountedHours :: "string \<Rightarrow> StudyPlan list \<Rightarrow> hours" where
  "accountedHours tid studyPlans =
     sumHours (filter (\<lambda>s. done_flag s \<or> status s = Completed \<or> status s = Skipped
                            \<or> isSessionLocked s studyPlans)
                 (taskSessions tid studyPlans))"

definition calculateRemainingTaskHours :: "Task \<Rightarrow> StudyPlan list \<Rightarrow> hours" where
  "calculateRemainingTaskHours t studyPlans =
     max 0 (estimatedHours t - accountedHours (task_id t) studyPlans)"

text \<open>The sessions the purge of a task keeps on an unlocked day.\<close>

definition keptByPurge :: "string \<Rightarrow> StudySession \<Rightarrow> bool" where
  "keptByPurge tid s =
     (taskId s \<noteq> tid \<or> done_flag s \<or> status s = Completed \<or> status s = Skipped)"

definition removeUnlockedTaskSessions :: "string \<Rightarrow> StudyPlan list \<Rightarrow> StudyPlan list" where
  "removeUnlockedTaskSessions tid studyPlans =
     map (\<lambda>p. if isLocked p then p
              else (let kept = filter (keptByPurge tid) (plannedTasks p)
                    in p\<lparr>plannedTasks := kept, totalStudyHours := nonSkippedHours kept\<rparr>))
         studyPlans"

section \<open>Plan generator\<close>

text \<open>
  A mutation of the first plan object that satisfies a test, the rest of the array
  untouched: what \<^verbatim>\<open>find\<close> followed by assignments to the found object does.
\<close>

fun updateFirst :: "('a \<Rightarrow> bool) \<Rightarrow> ('a \<Rightarrow> 'a) \<Rightarrow> 'a list \<Rightarrow> 'a list" where
  "updateFirst P f [] = []"
| "updateFirst P f (x # xs) = (if P x then f x # xs else x # updateFirst P f xs)"

definition emptyPlan :: "day \<Rightarrow> UserSettings \<Rightarrow> StudyPlan" where
  "emptyPlan d st =
     \<lparr>plan_id = PlanOfDate d, date = d, plannedTasks = [], totalStudyHours = 0,
      availableHours = dailyAvailableHours st, isLocked = False\<rparr>"

definition pushSession :: "StudySession \<Rightarrow> StudyPlan \<Rightarrow> StudyPlan" where
  "pushSession session p =
     (if isLocked p then p
      else p\<lparr>plannedTasks := plannedTasks p @ [session],
             totalStudyHours := nonSkippedHours (plannedTasks p @ [session])\<rparr>)"

definition addSessionToPlan ::
  "StudySession \<Rightarrow> day \<Rightarrow> StudyPlan list \<Rightarrow> UserSettings \<Rightarrow> StudyPlan list" where
  "addSessionToPlan session d workingPlans st =
     (let workingPlans =
            (if planForDate d workingPlans = None then workingPlans @ [emptyPlan d st]
             else workingPlans)
      in updateFirst (\<lambda>p. date p = d) (pushSession session) workingPlans)"

definition allSessions :: "StudyPlan list \<Rightarrow> StudySession list" where
  "allSessions studyPlans = concat (map plannedTasks studyPlans)"

definition getNextSessionNumber :: "string \<Rightarrow> StudyPlan list \<Rightarrow> int" where
  "getNextSessionNumber tid studyPlans =
     fold (\<lambda>s maxSessionNumber.
             if taskId s = tid \<and> sessionNumber s \<noteq> 0
             then max maxSessionNumber (sessionNumber s) else maxSessionNumber)
          (allSessions studyPlans) 0 + 1"

text \<open>The deadline after the buffer days have been taken off.\<close>

definition bufferedDeadline :: "Task \<Rightarrow> UserSettings \<Rightarrow> instant" where
  "bufferedDeadline t st =
     (if bufferDays st > 0 then deadline t - bufferDays st * msPerDay else deadline t)"

text \<open>
  The loop runs \<^verbatim>\<open>currentDate\<close> from today's midnight, one day at a time, while it is
  not after the buffered deadline: these are the days from \<open>today\<close> to the day the
  buffered deadline falls on.
\<close>

definition getAvailableDaysForTask :: "Clock \<Rightarrow> Task \<Rightarrow> StudyPlan list \<Rightarrow> UserSettings \<Rightarrow> day list" where
  "getAvailableDaysForTask clk t workingPlans st =
     filter (\<lambda>d. getDay d \<in> set (workDays st) \<and> \<not> dayIsLocked d workingPlans)
       [today clk .. bufferedDeadline t st div msPerDay]"

definition newSession :: "string \<Rightarrow> day \<Rightarrow> clocktime \<Rightarrow> clocktime \<Rightarrow> hours \<Rightarrow> int \<Rightarrow> StudySession" where
  "newSession tid dayDate start fin hoursForDay n =
     \<lparr>taskId = tid, scheduledTime = (dayDate, start), startTime = start, endTime = fin,
      allocatedHours = hoursForDay, sessionNumber = n, isFlexible = True,
      status = Scheduled, done_flag = False, isManualOverride = None,
      originalTime = None, originalDate = None, rescheduledAt = None\<rparr>"

text \<open>One round of the day loop of \<^verbatim>\<open>scheduleTaskWithStrategy\<close>.\<close>

definition scheduleDay ::
  "string \<Rightarrow> UserSettings \<Rightarrow> FixedCommitment list \<Rightarrow> day \<times> hours
   \<Rightarrow> StudyPlan list \<times> int \<Rightarrow> StudyPlan list \<times> int" where
  "scheduleDay tid st fcs dh acc =
     (let dayDate = fst dh; hoursForDay = snd dh;
          workingPlans = fst acc; sessionNumber = snd acc
      in if hoursForDay > 0
         then (case findNextAvailableTimeSlot hoursForDay dayDate workingPlans st fcs 1 of
                 Some (slotDate, start, fin) \<Rightarrow>
                   if slotDate = dayDate
                   then (addSessionToPlan
                           (newSession tid dayDate start fin hoursForDay sessionNumber)
                           dayDate workingPlans st,
                         sessionNumber + 1)
                   else acc
               | None \<Rightarrow> acc)
         else acc)"

definition scheduleTaskWithStrategy ::
  "Clock \<Rightarrow> UserSettings \<Rightarrow> FixedCommitment list \<Rightarrow> TaskR \<Rightarrow> strategy
   \<Rightarrow> StudyPlan list \<Rightarrow> StudyPlan list" where
  "scheduleTaskWithStrategy clk st fcs t strat workingPlans =
     (if remainingHours t \<le> 0 then workingPlans
      else (let availableDays = getAvailableDaysForTask clk (rtask t) workingPlans st
            in if availableDays = [] then workingPlans
               else (let dailyHoursDistribution =
                           calculateDailyHoursDistribution (remainingHours t)
                             (length availableDays) strat;
                         sessionNumber = getNextSessionNumber (task_id (rtask t)) workingPlans
                     in fst (fold (scheduleDay (task_id (rtask t)) st fcs)
                               (zip availableDays dailyHoursDistribution)
                               (workingPlans, sessionNumber)))))"

text \<open>Eisenhower quadrants: urgent is a deadline at most three days away.\<close>

definition isUrgent :: "Clock \<Rightarrow> TaskR \<Rightarrow> bool" where
  "isUrgent clk t =
     (\<lceil>(of_int (deadline (rtask t) - now clk) :: rat) / of_int msPerDay\<rceil> \<le> 3)"

definition getTaskDistributionStrategy :: "Clock \<Rightarrow> TaskR \<Rightarrow> strategy" where
  "getTaskDistributionStrategy clk t =
     (if importance (rtask t) \<and> isUrgent clk t then FrontLoad
      else if importance (rtask t) \<and> \<not> isUrgent clk t then EvenLoad
      else if \<not> importance (rtask t) \<and> isUrgent clk t then FrontLoad
      else BackLoad)"

definition eisenhowerOrder :: "Clock \<Rightarrow> TaskR list \<Rightarrow> TaskR list" where
  "eisenhowerOrder clk tasks =
     filter (\<lambda>t. importance (rtask t) \<and> isUrgent clk t) tasks
     @ filter (\<lambda>t. importance (rtask t) \<and> \<not> isUrgent clk t) tasks
     @ filter (\<lambda>t. \<not> importance (rtask t) \<and> isUrgent clk t) tasks
     @ filter (\<lambda>t. \<not> importance (rtask t) \<and> \<not> isUrgent clk t) tasks"

text \<open>\<^verbatim>\<open>tasks.forEach(task => scheduleTaskWithStrategy(task, ...))\<close>.\<close>

definition scheduleAll ::
  "Clock \<Rightarrow> UserSettings \<Rightarrow> FixedCommitment list \<Rightarrow> (TaskR \<Rightarrow> strategy) \<Rightarrow> TaskR list
   \<Rightarrow> StudyPlan list \<Rightarrow> StudyPlan list" where
  "scheduleAll clk st fcs strat tasks workingPlans =
     fold (\<lambda>t. scheduleTaskWithStrategy clk st fcs t (strat t)) tasks workingPlans"

definition generateEisenhowerPlan ::
  "Clock \<Rightarrow> TaskR list \<Rightarrow> StudyPlan list \<Rightarrow> UserSettings \<Rightarrow> FixedCommitment list \<Rightarrow> StudyPlan list" where
  "generateEisenhowerPlan clk tasks workingPlans st fcs =
     scheduleAll clk st fcs (getTaskDistributionStrategy clk) (eisenhowerOrder clk tasks) workingPlans"

definition generateBalancedPriorityPlan ::
  "Clock \<Rightarrow> TaskR list \<Rightarrow> StudyPlan list \<Rightarrow> UserSettings \<Rightarrow> FixedCommitment list \<Rightarrow> StudyPlan list" where
  "generateBalancedPriorityPlan clk tasks workingPlans st fcs =
     (let importantTasks = filter (\<lambda>t. importance (rtask t)) tasks;
          regularTasks = filter (\<lambda>t. \<not> importance (rtask t)) tasks
      in scheduleAll clk st fcs (\<lambda>_. EvenLoad) regularTasks
           (scheduleAll clk st fcs (\<lambda>_. EvenLoad) importantTasks workingPlans))"

text \<open>
  The comparator puts important tasks first and then earlier deadlines; the sort is
  stable, as \<^const>\<open>sort_key\<close> on this key is.
\<close>

definition generateEvenDistributionPlan ::
  "Clock \<Rightarrow> TaskR list \<Rightarrow> StudyPlan list \<Rightarrow> UserSettings \<Rightarrow> FixedCommitment list \<Rightarrow> StudyPlan list" where
  "generateEvenDistributionPlan clk tasks workingPlans st fcs =
     (let sortedTasks =
            sort_key (\<lambda>t. (if importance (rtask t) then 0 else 1 :: nat, deadline (rtask t))) tasks
      in scheduleAll clk st fcs (\<lambda>_. EvenLoad) sortedTasks workingPlans)"

definition tasksWithRemainingHours :: "Task list \<Rightarrow> StudyPlan list \<Rightarrow> TaskR list" where
  "tasksWithRemainingHours tasks workingPlans =
     filter (\<lambda>t. remainingHours t > 0)
       (map (\<lambda>t. \<lparr>rtask = t, remainingHours = calculateRemainingTaskHours t workingPlans\<rparr>)
          (filter (\<lambda>t. task_status t = Pending) tasks))"

definition purgeAll :: "TaskR list \<Rightarrow> StudyPlan list \<Rightarrow> StudyPlan list" where
  "purgeAll tasks workingPlans =
     fold (\<lambda>t. removeUnlockedTaskSessions (task_id (rtask t))) tasks workingPlans"

text \<open>
  \<^verbatim>\<open>generateNewStudyPlan\<close>. The working copy made by
  \<^verbatim>\<open>JSON.parse(JSON.stringify(existingPlans))\<close> has the value of the argument; every
  later step works on that copy, which is what is returned.
\<close>

definition generateNewStudyPlan ::
  "Clock \<Rightarrow> Task list \<Rightarrow> UserSettings \<Rightarrow> FixedCommitment list \<Rightarrow> StudyPlan list \<Rightarrow> StudyPlan list" where
  "generateNewStudyPlan clk tasks st fcs existingPlans =
     (let workingPlans = existingPlans;
          withRemaining = tasksWithRemainingHours tasks workingPlans
      in if withRemaining = [] then workingPlans
         else (let workingPlans = purgeAll withRemaining workingPlans
               in case studyPlanMode st of
                    ModeEisenhower \<Rightarrow> generateEisenhowerPlan clk withRemaining workingPlans st fcs
                  | ModeBalanced \<Rightarrow> generateBalancedPriorityPlan clk withRemaining workingPlans st fcs
                  | ModeEven \<Rightarrow> generateEvenDistributionPlan clk withRemaining workingPlans st fcs))"

section \<open>Redistribution of missed sessions\<close>

datatype check_status = CheckScheduled | CheckOverdue | CheckMissed | CheckCompleted

text \<open>
  \<^verbatim>\<open>checkSessionStatus\<close>. The code compares \<^verbatim>\<open>new Date(`${date}T${endTime}:00`)\<close> with
  the current instant. The string is a date only when the end time is a whole minute
  from 00:00 to 24:00. For any other end time (the generator itself writes fractional
  minutes, such as 10:40.8 for a session of 1.68 hours from 9:00) the date is invalid and
  each comparison with it is false. The instant a session ends is its plan's date at the
  session's end time. (Numbers are exact here: an end time that has a fraction only by
  the rounding of doubles is a whole minute in this model.)
\<close>

definition endTimeParses :: "clocktime \<Rightarrow> bool" where
  "endTimeParses e \<longleftrightarrow> e = of_int \<lfloor>e\<rfloor> \<and> 0 \<le> e \<and> e \<le> 1440"

definition sessionEndInstant :: "StudySession \<Rightarrow> day \<Rightarrow> rat" where
  "sessionEndInstant session planDate = of_int (planDate * msPerDay) + endTime session * 60000"

definition endedBefore :: "Clock \<Rightarrow> StudySession \<Rightarrow> day \<Rightarrow> bool" where
  "endedBefore clk session planDate \<longleftrightarrow>
     endTimeParses (endTime session) \<and> sessionEndInstant session planDate < of_int (now clk)"

definition checkSessionStatus :: "Clock \<Rightarrow> StudySession \<Rightarrow> day \<Rightarrow> check_status" where
  "checkSessionStatus clk session planDate =
     (if done_flag session \<or> status session = Completed then CheckCompleted
      else if status session = Missed then CheckMissed
      else if planDate < today clk \<and> endedBefore clk session planDate
      then CheckMissed
      else if planDate = today clk \<and> endedBefore clk session planDate
              \<and> \<not> done_flag session \<and> status session \<noteq> Completed
      then CheckOverdue
      else CheckScheduled)"

record MissedEntry =
  m_session :: StudySession
  m_planDate :: day
  m_task :: Task
  m_priority :: rat

text \<open>The priority the collecting loop computes for a missed session of a task.\<close>

definition missedPriority :: "Clock \<Rightarrow> Task \<Rightarrow> rat" where
  "missedPriority clk t =
     (let priority = (if importance t then 1000 else 0);
          daysUntilDeadline = max 0 ((of_int (deadline t - now clk) :: rat) / of_int msPerDay)
      in if daysUntilDeadline < 0 then priority + 2000
         else priority + max 0 (100 - daysUntilDeadline))"

definition collectMissed :: "Clock \<Rightarrow> Task list \<Rightarrow> StudyPlan list \<Rightarrow> MissedEntry list" where
  "collectMissed clk tasks workingPlans =
     concat (map (\<lambda>p.
       if isLocked p \<or> date p \<ge> today clk then []
       else concat (map (\<lambda>session.
              if checkSessionStatus clk session (date p) = CheckMissed \<and> status session \<noteq> Skipped
              then (case find (\<lambda>t. task_id t = taskId session) tasks of
                      None \<Rightarrow> []
                    | Some t \<Rightarrow>
                        if task_status t = Pending
                        then [\<lparr>m_session = session, m_planDate = date p, m_task = t,
                               m_priority = missedPriority clk t\<rparr>]
                        else [])
              else []) (plannedTasks p))) workingPlans)"

text \<open>\<^verbatim>\<open>missedSessions.sort((a, b) => b.priority - a.priority)\<close>: descending, stable.\<close>

definition sortByPriority :: "MissedEntry list \<Rightarrow> MissedEntry list" where
  "sortByPriority missedSessions = sort_key (\<lambda>m. - m_priority m) missedSessions"

text \<open>\<^verbatim>\<open>findIndex\<close> by task and session number, then \<^verbatim>\<open>splice(index, 1)\<close>.\<close>

fun removeFirstKey :: "StudySession \<Rightarrow> StudySession list \<Rightarrow> StudySession list option" where
  "removeFirstKey session [] = None"
| "removeFirstKey session (s # ss) =
     (if sameKey session s then Some ss
      else map_option ((#) s) (removeFirstKey session ss))"

definition spliceOriginal :: "StudySession \<Rightarrow> StudyPlan \<Rightarrow> StudyPlan" where
  "spliceOriginal session originalPlan =
     (if isLocked originalPlan then originalPlan
      else case removeFirstKey session (plannedTasks originalPlan) of
             None \<Rightarrow> originalPlan
           | Some rest \<Rightarrow>
               originalPlan\<lparr>plannedTasks := rest, totalStudyHours := nonSkippedHours rest\<rparr>)"

record MoveState =
  ms_plans :: "StudyPlan list"
  ms_moved :: "StudySession list"
  ms_failed :: "StudySession list"

definition moveMissed ::
  "Clock \<Rightarrow> UserSettings \<Rightarrow> FixedCommitment list \<Rightarrow> MissedEntry \<Rightarrow> MoveState \<Rightarrow> MoveState" where
  "moveMissed clk st fcs m acc =
     (let session = m_session m; planDate = m_planDate m; t = m_task m;
          workingPlans = ms_plans acc;
          timeSlot = findNextAvailableTimeSlot (allocatedHours session) (today clk)
                       workingPlans st fcs
                       \<lceil>(of_int (bufferedDeadline t st - now clk) :: rat) / of_int msPerDay\<rceil>
      in case timeSlot of
           Some (slotDate, start, fin) \<Rightarrow>
             (let workingPlans = updateFirst (\<lambda>p. date p = planDate) (spliceOriginal session) workingPlans;
                  moved = session\<lparr>startTime := start, endTime := fin, status := Rescheduled,
                                  isManualOverride := Some False,
                                  originalTime := Some (startTime session),
                                  originalDate := Some planDate,
                                  rescheduledAt := Some (now clk)\<rparr>
              in acc\<lparr>ms_plans := addSessionToPlan moved slotDate workingPlans st,
                      ms_moved := ms_moved acc @ [moved]\<rparr>)
         | None \<Rightarrow> acc\<lparr>ms_failed := ms_failed acc @ [session]\<rparr>)"

datatype feedback_message =
    NoMissedSessions
  | RedistributedSome nat nat
  | RedistributedNone nat

record FeedbackDetails =
  totalMissed :: nat
  successfullyMoved :: nat
  failedToMove :: nat
  conflictsDetected :: bool
  priorityOrderUsed :: bool
  issues :: "string list"
  suggestions :: "string list"

record Feedback =
  success :: bool
  message :: feedback_message
  details :: FeedbackDetails

record RedistributionResult =
  updatedPlans :: "StudyPlan list"
  movedSessions :: "StudySession list"
  failedSessions :: "StudySession list"
  feedback :: Feedback

definition redistributeMissedSessionsWithFeedback ::
  "Clock \<Rightarrow> StudyPlan list \<Rightarrow> UserSettings \<Rightarrow> FixedCommitment list \<Rightarrow> Task list
   \<Rightarrow> RedistributionResult" where
  "redistributeMissedSessionsWithFeedback clk studyPlans st fcs tasks =
     (let workingPlans = studyPlans;
          missedSessions = collectMissed clk tasks workingPlans
      in if length missedSessions = 0
         then \<lparr>updatedPlans = workingPlans, movedSessions = [], failedSessions = [],
               feedback = \<lparr>success = True, message = NoMissedSessions,
                 details = \<lparr>totalMissed = 0, successfullyMoved = 0, failedToMove = 0,
                   conflictsDetected = False, priorityOrderUsed = False,
                   issues = [], suggestions = []\<rparr>\<rparr>\<rparr>
         else
           (let final = fold (moveMissed clk st fcs) (sortByPriority missedSessions)
                          \<lparr>ms_plans = workingPlans, ms_moved = [], ms_failed = []\<rparr>;
                moved = ms_moved final; failed = ms_failed final
            in \<lparr>updatedPlans = ms_plans final, movedSessions = moved, failedSessions = failed,
                 feedback = \<lparr>success = (length moved > 0),
                   message = (if length moved > 0
                              then RedistributedSome (length moved) (length missedSessions)
                              else RedistributedNone (length missedSessions)),
                   details = \<lparr>totalMissed = length missedSessions,
                     successfullyMoved = length moved,
                     failedToMove = length failed,
                     conflictsDetected = (length failed > 0),
                     priorityOrderUsed = True,
                     issues = (if length failed > 0
                               then [''Some sessions could not be redistributed due to scheduling conflicts'']
                               else []),
                     suggestions = (if length failed > 0
                               then [''Consider increasing daily available hours'',
                                     ''Add more work days to your schedule'',
                                     ''Extend task deadlines if possible'']
                               else [])\<rparr>\<rparr>\<rparr>))"

section \<open>Lock governance\<close>





record LockCheck =
  canLock :: bool
  pendingSessions :: "nat option"

definition isPendingSession :: "StudySession \<Rightarrow> bool" where
  "isPendingSession session =
     (\<not> done_flag session \<and> status session \<noteq> Completed \<and> status session \<noteq> Skipped
      \<and> status session \<noteq> Missed)"

text \<open>\<^verbatim>\<open>canLockDay\<close>; the reason string repeats the count and is left out.\<close>

definition canLockDay :: "day \<Rightarrow> StudyPlan list \<Rightarrow> LockCheck" where
  "canLockDay d studyPlans =
     (case planForDate d studyPlans of
        None \<Rightarrow> \<lparr>canLock = True, pendingSessions = None\<rparr>
      | Some p \<Rightarrow>
          (let pending = filter isPendingSession (plannedTasks p)
           in if length pending > 0
              then \<lparr>canLock = False, pendingSessions = Some (length pending)\<rparr>
              else \<lparr>canLock = True, pendingSessions = None\<rparr>))"

section \<open>Session merging\<close>










section \<open>Eviction from locked days\<close>














section \<open>The caller's collection as objects in a store\<close>


























section \<open>Example data\<close>

text \<open>Concrete inputs on which the theorems below are exercised.\<close>

definition sess :: "string \<Rightarrow> int \<Rightarrow> clocktime \<Rightarrow> hours \<Rightarrow> session_status \<Rightarrow> bool \<Rightarrow> StudySession" where
  "sess tid n start h stat dn =
     \<lparr>taskId = tid, scheduledTime = (0, start), startTime = start,
      endTime = addHoursToTime start h, allocatedHours = h, sessionNumber = n,
      isFlexible = True, status = stat, done_flag = dn, isManualOverride = None,
      originalTime = None, originalDate = None, rescheduledAt = None\<rparr>"

definition plan :: "day \<Rightarrow> bool \<Rightarrow> StudySession list \<Rightarrow> StudyPlan" where
  "plan d locked ss =
     \<lparr>plan_id = PlanOfDate d, date = d, plannedTasks = ss,
      totalStudyHours = nonSkippedHours ss, availableHours = 8, isLocked = locked\<rparr>"

definition mkTask :: "string \<Rightarrow> hours \<Rightarrow> day \<Rightarrow> bool \<Rightarrow> Task" where
  "mkTask tid est deadlineDay imp =
     \<lparr>task_id = tid, title = tid, estimatedHours = est, deadline = deadlineDay * msPerDay,
      importance = imp, task_status = Pending\<rparr>"

text \<open>Every weekday is a work day; eight hours a day, in the window from 9:00 to 17:00.\<close>

definition exSettings :: "plan_mode \<Rightarrow> UserSettings" where
  "exSettings m =
     \<lparr>workDays = [0, 1, 2, 3, 4, 5, 6], dailyAvailableHours = 8, bufferDays = 0,
      studyWindowStartHour = 9, studyWindowEndHour = 17, minSessionLength = 15,
      studyPlanMode = m\<rparr>"

text \<open>Noon of day 20.\<close>

definition exClock :: Clock where
  "exClock = \<lparr>today = 20, now = 20 * msPerDay + 12 * 3600000\<rparr>"

text \<open>Scenario A of the specification: day 20 is locked and holds one hour of task A.\<close>

definition scenarioA :: "StudyPlan list" where
  "scenarioA = [plan 20 True [sess ''A'' 1 540 1 Scheduled False]]"


text \<open>
  A collection with a done session, a locked day, a skipped, a missed and a completed
  session, and tasks of which one is completed and one has no session yet; a recurring
  commitment from 9:00 to 15:00, deleted on day 22 and starting at 10:00 on day 23.
\<close>

definition mixedPlans :: "StudyPlan list" where
  "mixedPlans =
     [plan 22 False [sess ''A'' 1 540 1 Scheduled True, sess ''B'' 1 600 2 Scheduled False,
                     sess ''C'' 1 720 1 Scheduled False],
      plan 21 True [sess ''A'' 2 540 1 Scheduled False, sess ''B'' 2 600 1 Skipped False],
      plan 23 False [sess ''A'' 3 540 3 Missed False, sess ''B'' 3 780 1 Completed False]]"




section \<open>Predicates used to state the claims\<close>

text \<open>A transformation of one plan that keeps its date and lock flag and leaves a locked plan alone.\<close>

definition lockSafe :: "(StudyPlan \<Rightarrow> StudyPlan) \<Rightarrow> bool" where
  "lockSafe f \<longleftrightarrow> (\<forall>p. date (f p) = date p \<and> isLocked (f p) = isLocked p \<and> (isLocked p \<longrightarrow> f p = p))"

text \<open>
  \<open>lockedKept P Q\<close>: the collection \<open>Q\<close> has, position by position, the dates and lock
  flags of \<open>P\<close> (and perhaps further plans after them), and each locked plan of \<open>P\<close> is
  in \<open>Q\<close> as it is in \<open>P\<close>.
\<close>

definition lockedKept :: "StudyPlan list \<Rightarrow> StudyPlan list \<Rightarrow> bool" where
  "lockedKept P Q \<longleftrightarrow>
     length P \<le> length Q
     \<and> (\<forall>i<length P. date (Q ! i) = date (P ! i) \<and> isLocked (Q ! i) = isLocked (P ! i)
                       \<and> (isLocked (P ! i) \<longrightarrow> Q ! i = P ! i))"



text \<open>
  The order in which a mode schedules the tasks, and the strategy it gives each task:
  with these, the three mode-specific generators are one loop (lemma \<open>generate_unfold\<close>).
\<close>

definition taskOrder :: "Clock \<Rightarrow> plan_mode \<Rightarrow> TaskR list \<Rightarrow> TaskR list" where
  "taskOrder clk m tasks =
     (case m of
        ModeEisenhower \<Rightarrow> eisenhowerOrder clk tasks
      | ModeBalanced \<Rightarrow> filter (\<lambda>t. importance (rtask t)) tasks
                        @ filter (\<lambda>t. \<not> importance (rtask t)) tasks
      | ModeEven \<Rightarrow> sort_key (\<lambda>t. (if importance (rtask t) then 0 else 1 :: nat, deadline (rtask t)))
                      tasks)"

definition taskStrategy :: "Clock \<Rightarrow> plan_mode \<Rightarrow> TaskR \<Rightarrow> strategy" where
  "taskStrategy clk m t =
     (case m of ModeEisenhower \<Rightarrow> getTaskDistributionStrategy clk t | _ \<Rightarrow> EvenLoad)"






text \<open>
  The working collection of a generation pass after its purge: the sessions the pass
  keeps (all sessions when no task has hours left to place).
\<close>

definition purgedPlans :: "Task list \<Rightarrow> StudyPlan list \<Rightarrow> StudyPlan list" where
  "purgedPlans tasks plans = purgeAll (tasksWithRemainingHours tasks plans) plans"

text \<open>The session's number is above the number of every session of its task in the collection.\<close>

definition numberedAbove :: "StudyPlan list \<Rightarrow> StudySession \<Rightarrow> bool" where
  "numberedAbove W s \<longleftrightarrow>
     (\<forall>s'\<in>set (allSessions W). taskId s' = taskId s \<longrightarrow> sessionNumber s' < sessionNumber s)"

text \<open>
  \<open>keepsAndNumbers W W'\<close>: the collection \<open>W'\<close> holds every session of \<open>W\<close>, and each of
  its other sessions is numbered above the sessions of its task in \<open>W\<close>.
  \<open>keyKnown plans s\<close>: some session of \<open>plans\<close> has the task and the number of \<open>s\<close>.
\<close>

definition keepsAndNumbers :: "StudyPlan list \<Rightarrow> StudyPlan list \<Rightarrow> bool" where
  "keepsAndNumbers W W' \<longleftrightarrow>
     set (allSessions W) \<subseteq> set (allSessions W')
     \<and> (\<forall>s\<in>set (allSessions W'). s \<in> set (allSessions W) \<or> numberedAbove W s)"

definition keyKnown :: "StudyPlan list \<Rightarrow> StudySession \<Rightarrow> bool" where
  "keyKnown plans s \<longleftrightarrow> (\<exists>s0\<in>set (allSessions plans). sameKey s0 s)"

text \<open>
  The purge of all the tasks to reschedule, plan by plan: a session survives when the
  purge of each of the tasks keeps it.
\<close>

definition keptByAll :: "TaskR list \<Rightarrow> StudySession \<Rightarrow> bool" where
  "keptByAll T s \<longleftrightarrow> (\<forall>t\<in>set T. keptByPurge (task_id (rtask t)) s)"

definition purgePlan :: "TaskR list \<Rightarrow> StudyPlan \<Rightarrow> StudyPlan" where
  "purgePlan T p =
     (if isLocked p \<or> T = [] then p
      else p\<lparr>plannedTasks := filter (keptByAll T) (plannedTasks p),
             totalStudyHours := nonSkippedHours (filter (keptByAll T) (plannedTasks p))\<rparr>)"


definition sessionKey :: "StudySession \<Rightarrow> string \<times> int" where
  "sessionKey s = (taskId s, sessionNumber s)"

text \<open>No two sessions of the collection have the same task and session number.\<close>

definition distinctKeys :: "StudyPlan list \<Rightarrow> bool" where
  "distinctKeys W \<longleftrightarrow> distinct (map sessionKey (allSessions W))"

text \<open>
  The hours of a task that one plan accounts for: those of its sessions that are done,
  completed or skipped, and all of them when the plan is locked.
\<close>

definition accountedInPlan :: "string \<Rightarrow> StudyPlan \<Rightarrow> hours" where
  "accountedInPlan tid p =
     sumHours (filter (\<lambda>s. taskId s = tid
                 \<and> (done_flag s \<or> status s = Completed \<or> status s = Skipped \<or> isLocked p))
               (plannedTasks p))"



text \<open>
  For a task: the hours of its sessions in a collection that are not skipped, the number
  of its sessions, and the hours of its skipped sessions.
\<close>

definition taskHours :: "string \<Rightarrow> StudyPlan list \<Rightarrow> hours" where
  "taskHours tid W = nonSkippedHours (taskSessions tid W)"

definition taskCount :: "string \<Rightarrow> StudyPlan list \<Rightarrow> nat" where
  "taskCount tid W = length (taskSessions tid W)"

definition skippedHours :: "string \<Rightarrow> StudyPlan list \<Rightarrow> hours" where
  "skippedHours tid W = sumHours (filter (\<lambda>s. status s = Skipped) (taskSessions tid W))"

text \<open>
  The vector of daily hours a generation pass on the collection computes for a task, from
  the task's remaining hours, its eligible days and the strategy of the mode.
\<close>

definition plannedDistribution :: "Clock \<Rightarrow> UserSettings \<Rightarrow> Task \<Rightarrow> StudyPlan list \<Rightarrow> hours list" where
  "plannedDistribution clk st t plans =
     calculateDailyHoursDistribution (calculateRemainingTaskHours t plans)
       (length (getAvailableDaysForTask clk t plans st))
       (taskStrategy clk (studyPlanMode st)
          \<lparr>rtask = t, remainingHours = calculateRemainingTaskHours t plans\<rparr>)"

text \<open>
  Every positive entry of the task's vector found a window: the pass created as many
  sessions for the task as the vector has positive entries.
\<close>

definition everyAllocationPlaced ::
  "Clock \<Rightarrow> Task list \<Rightarrow> UserSettings \<Rightarrow> FixedCommitment list \<Rightarrow> Task \<Rightarrow> StudyPlan list \<Rightarrow> bool" where
  "everyAllocationPlaced clk tasks st fcs t plans \<longleftrightarrow>
     taskCount (task_id t) (generateNewStudyPlan clk tasks st fcs plans)
       = taskCount (task_id t) (purgedPlans tasks plans)
         + length (filter (\<lambda>h. 0 < h) (plannedDistribution clk st t plans))"

text \<open>
  \<open>gainBounds tid W W' dv\<close>: from \<open>W\<close> to \<open>W'\<close> the task gained at most one session for
  each positive entry of the vector \<open>dv\<close> and at most their hours, and exactly their hours
  when it gained a session for each of them.
\<close>

definition gainBounds :: "string \<Rightarrow> StudyPlan list \<Rightarrow> StudyPlan list \<Rightarrow> hours list \<Rightarrow> bool" where
  "gainBounds tid W W' dv \<longleftrightarrow>
     taskCount tid W' \<le> taskCount tid W + length (filter (\<lambda>h. 0 < h) dv)
     \<and> taskHours tid W' \<le> taskHours tid W + sum_list (filter (\<lambda>h. 0 < h) dv)
     \<and> (taskCount tid W' = taskCount tid W + length (filter (\<lambda>h. 0 < h) dv)
          \<longrightarrow> taskHours tid W' = taskHours tid W + sum_list (filter (\<lambda>h. 0 < h) dv))"

text \<open>The hours of a task on one plan: those that count, and those skipped.\<close>

definition planTaskHours :: "string \<Rightarrow> StudyPlan \<Rightarrow> hours" where
  "planTaskHours tid p =
     sumHours (filter (\<lambda>s. taskId s = tid \<and> status s \<noteq> Skipped) (plannedTasks p))"

definition planSkippedHours :: "string \<Rightarrow> StudyPlan \<Rightarrow> hours" where
  "planSkippedHours tid p =
     sumHours (filter (\<lambda>s. taskId s = tid \<and> status s = Skipped) (plannedTasks p))"

text \<open>
  The session numbers of a task in a collection; the numbers \<open>n, n + 1, \<dots>\<close>, \<open>k\<close> of them;
  and the sessions of a collection that another does not hold.
\<close>

definition sessionNumbers :: "string \<Rightarrow> StudyPlan list \<Rightarrow> int list" where
  "sessionNumbers tid W = map sessionNumber (taskSessions tid W)"

definition sequenceFrom :: "int \<Rightarrow> nat \<Rightarrow> int list" where
  "sequenceFrom n k = [n .. n + int k - 1]"

definition createdSessions :: "StudyPlan list \<Rightarrow> StudyPlan list \<Rightarrow> StudySession list" where
  "createdSessions W W' = filter (\<lambda>s. s \<notin> set (allSessions W)) (allSessions W')"

text \<open>
  \<open>numberedInSequence W W' tid\<close>: the collection \<open>W'\<close> has the session numbers that task
  \<open>tid\<close> has in \<open>W\<close> and, for the sessions it has more, the numbers that
  \<^verbatim>\<open>getNextSessionNumber\<close> and \<^verbatim>\<open>sessionNumber++\<close> give from \<open>W\<close>: the next number, the
  one after it, and so on, each once.
  \<open>laterDayLaterNumber W W' tid\<close>: of two sessions of the task that \<open>W'\<close> holds and \<open>W\<close>
  does not, the one scheduled on the later day has the greater number.
\<close>

definition numberedInSequence :: "StudyPlan list \<Rightarrow> StudyPlan list \<Rightarrow> string \<Rightarrow> bool" where
  "numberedInSequence W W' tid \<longleftrightarrow>
     taskCount tid W \<le> taskCount tid W'
     \<and> sort (sessionNumbers tid W')
         = sort (sessionNumbers tid W
                 @ sequenceFrom (getNextSessionNumber tid W) (taskCount tid W' - taskCount tid W))"

definition laterDayLaterNumber :: "StudyPlan list \<Rightarrow> StudyPlan list \<Rightarrow> string \<Rightarrow> bool" where
  "laterDayLaterNumber W W' tid \<longleftrightarrow>
     (\<forall>s\<in>set (createdSessions W W'). \<forall>s'\<in>set (createdSessions W W').
        taskId s = tid \<and> taskId s' = tid \<and> fst (scheduledTime s) < fst (scheduledTime s')
        \<longrightarrow> sessionNumber s < sessionNumber s')"

section \<open>Properties of the distribution strategies\<close>


lemma length_addRemainder: "length (addRemainder xs r) = length xs"
  by (induction xs arbitrary: r) auto

lemma length_distributeEvenly: "length (distributeEvenly t d) = d"
  by (simp add: distributeEvenly_def Let_def length_addRemainder)

lemma addRemainder_nonneg:
  "\<forall>x\<in>set xs. 0 \<le> x \<Longrightarrow> \<forall>x\<in>set (addRemainder xs r). 0 \<le> x"
  by (induction xs arbitrary: r) (auto simp: min_def)

lemma round2_cents: "round2 (of_int k / 100) = of_int k / 100"
  by (simp add: round2_def)

lemma sum_addRemainder:
  "0 \<le> k \<Longrightarrow> (of_int k / 100 :: rat) \<le> of_nat (length xs) / 4 \<Longrightarrow>
   sum_list (addRemainder xs (of_int k / 100)) = sum_list xs + of_int k / 100"
proof (induction xs arbitrary: k)
  case Nil
  then show ?case by simp
next
  case (Cons x xs)
  show ?case
  proof (cases "k \<le> 25")
    case True
    then have m: "min (1/4) (of_int k / 100 :: rat) = of_int k / 100"
      by (simp add: min_def)
    have z: "addRemainder xs 0 = xs" by (cases xs) auto
    show ?thesis using Cons.prems(1) by (simp add: m z round2_def)
  next
    case False
    then have m: "min (1/4) (of_int k / 100 :: rat) = 1/4"
      by (simp add: min_def)
    have e: "(of_int k / 100 :: rat) - 1/4 = of_int (k - 25) / 100" by simp
    have pos: "(0::rat) < of_int k / 100" using False by simp
    have le: "(of_int (k - 25) / 100 :: rat) \<le> of_nat (length xs) / 4"
      using Cons.prems(2) by simp
    have "0 \<le> k - 25" using False by simp
    from Cons.IH[OF this le] show ?thesis
      using pos by (simp add: m e round2_cents del: of_int_diff)
  qed
qed

lemma round_diff_half: "\<bar>of_int (round (y::rat)) - y\<bar> \<le> 1/2"
  using of_int_round_abs_le[of y] by simp

lemma distributeEvenly_sum:
  assumes "0 \<le> t" "0 < d"
  shows "\<bar>sum_list (distributeEvenly t d) - t\<bar> \<le> 1/200"
proof -
  define q where "q = (t * 100) / of_nat d"
  define b where "b = (of_int \<lfloor>q\<rfloor> / 100 :: rat)"
  define y where "y = (t - b * of_nat d) * 100"
  define k where "k = round y"
  have dpos: "(0::rat) < of_nat d" using assms by simp
  have y_eq: "y = of_nat d * (q - of_int \<lfloor>q\<rfloor>)"
    using dpos by (simp add: y_def b_def q_def field_simps)
  have "0 \<le> q - of_int \<lfloor>q\<rfloor>" "q - of_int \<lfloor>q\<rfloor> < 1" by linarith+
  then have y0: "0 \<le> y" and yd: "y < of_nat d"
    using dpos by (simp_all add: y_eq mult_less_cancel_left2)
  have k0: "0 \<le> k" unfolding k_def using y0 by (simp add: round_def) 
  have "k \<le> round (of_int (int d) :: rat)" unfolding k_def
    by (rule round_mono) (use yd in simp)
  then have kd: "k \<le> int d" by simp
  have le: "(of_int k / 100 :: rat) \<le> of_nat (length (replicate d b)) / 4"
  proof -
    have "(of_int k :: rat) \<le> of_nat d" using kd by (metis of_int_le_iff of_int_of_nat_eq)
    then show ?thesis using dpos by simp
  qed
  have de: "distributeEvenly t d = addRemainder (replicate d b) (of_int k / 100)"
    by (simp add: distributeEvenly_def Let_def b_def q_def k_def y_def round2_def)
  have s: "sum_list (distributeEvenly t d) = of_nat d * b + of_int k / 100"
    unfolding de using sum_addRemainder[OF k0 le] by (simp add: sum_list_replicate)
  have t: "t = of_nat d * b + y / 100" by (simp add: y_def diff_divide_distrib)
  have "\<bar>of_int k - y\<bar> \<le> 1/2" unfolding k_def by (rule round_diff_half)
  then have "\<bar>(of_nat d * b + of_int k / 100) - (of_nat d * b + y / 100)\<bar> \<le> 1/200"
    by linarith
  then show ?thesis using s t by metis
qed

lemma distributeEvenly_nonneg:
  assumes "0 \<le> t"
  shows "\<forall>x\<in>set (distributeEvenly t d). 0 \<le> x"
proof -
  have "0 \<le> (t * 100) / of_nat d" using assms by simp
  then have "0 \<le> \<lfloor>(t * 100) / of_nat d\<rfloor>" by simp
  then have "\<forall>x\<in>set (replicate d (of_int \<lfloor>(t * 100) / of_nat d\<rfloor> / 100 :: rat)). 0 \<le> x"
    by simp
  then show ?thesis
    unfolding distributeEvenly_def Let_def by (rule addRemainder_nonneg)
qed


lemma ceilDiv3: "ceilDiv a 3 = (a + 2) div 3"
proof -
  have "\<lceil>(of_nat a :: rat) / of_nat 3\<rceil> = - (- int a div 3)"
    using ceiling_divide_eq_div[of "int a" 3, where ?'a = rat] by simp
  moreover have "- (- int a div 3) = (int a + 2) div 3" by linarith
  moreover have "(int a + 2) div 3 = int ((a + 2) div 3)" by (simp add: zdiv_int)
  ultimately show ?thesis unfolding ceilDiv_def by simp
qed

lemma thirds_in_range:
  "ceilDiv d 3 \<le> ceilDiv (d * 2) 3" "ceilDiv (d * 2) 3 \<le> d"
  unfolding ceilDiv3 by linarith+

lemma thirds_nonempty:
  "3 \<le> d \<Longrightarrow> 0 < ceilDiv d 3 \<and> ceilDiv d 3 < ceilDiv (d * 2) 3 \<and> ceilDiv (d * 2) 3 < d"
  unfolding ceilDiv3 by linarith

lemma writeThird_eq:
  "off + n \<le> length d \<Longrightarrow>
   writeThird d off daily n = take off d @ map (nth_or0 daily) [0..<n] @ drop (off + n) d"
proof (induction n)
  case 0
  then show ?case by (simp add: writeThird_def)
next
  case (Suc n)
  then have ih: "writeThird d off daily n
      = take off d @ map (nth_or0 daily) [0..<n] @ drop (off + n) d" by simp
  have lt: "off + n < length d" using Suc.prems by simp
  have "writeThird d off daily (Suc n) = (writeThird d off daily n)[off + n := nth_or0 daily n]"
    by (simp add: writeThird_def)
  also have "\<dots> = take off d @ map (nth_or0 daily) [0..<n] @ (drop (off + n) d)[0 := nth_or0 daily n]"
    using lt by (simp add: ih list_update_append)
  also have "(drop (off + n) d)[0 := nth_or0 daily n] = nth_or0 daily n # drop (off + Suc n) d"
    using lt by (simp add: Cons_nth_drop_Suc[symmetric])
  finally show ?case by simp
qed

lemma map_nth_or0: "length daily = n \<Longrightarrow> map (nth_or0 daily) [0..<n] = daily"
  by (auto simp: nth_or0_def intro: nth_equalityI)

lemma writeThird_full:
  "off + n \<le> length d \<Longrightarrow> length daily = n \<Longrightarrow>
   writeThird d off daily n = take off d @ daily @ drop (off + n) d"
  by (simp add: writeThird_eq map_nth_or0)

lemma distributeThirds_eq:
  "distributeThirds w1 w2 w3 t d =
     distributeEvenly (t * w1) (ceilDiv d 3)
     @ thirdPart (t * w2) (ceilDiv (d * 2) 3 - ceilDiv d 3)
     @ thirdPart (t * w3) (d - ceilDiv (d * 2) 3)"
proof -
  define f where "f = ceilDiv d 3"
  define s where "s = ceilDiv (d * 2) 3"
  have fs: "f \<le> s" and sd: "s \<le> d" unfolding f_def s_def by (rule thirds_in_range)+
  define A where "A = distributeEvenly (t * w1) f"
  define B where "B = thirdPart (t * w2) (s - f)"
  define C where "C = thirdPart (t * w3) (d - s)"
  have lA: "length A = f" by (simp add: A_def length_distributeEvenly)
  have lB: "length B = s - f" by (simp add: B_def thirdPart_def length_distributeEvenly)
  have lC: "length C = d - s" by (simp add: C_def thirdPart_def length_distributeEvenly)
  define d1 where "d1 = writeThird (replicate d 0) 0 A f"
  have d1: "d1 = A @ replicate (d - f) 0"
    unfolding d1_def using fs sd lA by (simp add: writeThird_full)
  define d2 where "d2 = (if s - f > 0 then writeThird d1 f (distributeEvenly (t * w2) (s - f)) (s - f) else d1)"
  have d2: "d2 = A @ B @ replicate (d - s) 0"
  proof (cases "s - f > 0")
    case True
    then have "d2 = writeThird d1 f B (s - f)" by (simp add: d2_def B_def thirdPart_def)
    also have "\<dots> = take f d1 @ B @ drop (f + (s - f)) d1"
      using fs sd lA lB by (intro writeThird_full) (simp_all add: d1)
    finally show ?thesis using fs sd lA by (simp add: d1)
  next
    case False
    then have "B = []" "s = f" using fs by (simp_all add: B_def thirdPart_def)
    then show ?thesis using False by (simp add: d2_def d1)
  qed
  define d3 where "d3 = (if d - s > 0 then writeThird d2 s (distributeEvenly (t * w3) (d - s)) (d - s) else d2)"
  have d3: "d3 = A @ B @ C"
  proof (cases "d - s > 0")
    case True
    then have "d3 = writeThird d2 s C (d - s)" by (simp add: d3_def C_def thirdPart_def)
    also have "\<dots> = take s d2 @ C @ drop (s + (d - s)) d2"
      using fs sd lA lB lC by (intro writeThird_full) (simp_all add: d2)
    finally show ?thesis using fs sd lA lB by (simp add: d2)
  next
    case False
    then have "C = []" "d = s" using sd by (simp_all add: C_def thirdPart_def)
    then show ?thesis using False by (simp add: d3_def d2)
  qed
  have "distributeThirds w1 w2 w3 t d = d3"
    unfolding distributeThirds_def Let_def d3_def d2_def d1_def A_def f_def s_def by simp
  then show ?thesis by (simp add: d3 A_def B_def C_def f_def s_def)
qed

lemma thirdPart_nonneg: "0 \<le> h \<Longrightarrow> \<forall>x\<in>set (thirdPart h n). 0 \<le> x"
  using distributeEvenly_nonneg[of h n] by (simp add: thirdPart_def)

lemma distributeThirds_length: "length (distributeThirds w1 w2 w3 t d) = d"
  using thirds_in_range[of d]
  by (simp add: distributeThirds_eq thirdPart_def length_distributeEvenly)

lemma distributeThirds_nonneg:
  assumes "0 \<le> t" "0 \<le> w1" "0 \<le> w2" "0 \<le> w3"
  shows "\<forall>x\<in>set (distributeThirds w1 w2 w3 t d). 0 \<le> x"
proof -
  have a: "\<forall>x\<in>set (distributeEvenly (t * w1) (ceilDiv d 3)). 0 \<le> x"
    by (rule distributeEvenly_nonneg) (simp add: assms)
  have b: "\<forall>x\<in>set (thirdPart (t * w2) (ceilDiv (d * 2) 3 - ceilDiv d 3)). 0 \<le> x"
    by (rule thirdPart_nonneg) (simp add: assms)
  have c: "\<forall>x\<in>set (thirdPart (t * w3) (d - ceilDiv (d * 2) 3)). 0 \<le> x"
    by (rule thirdPart_nonneg) (simp add: assms)
  show ?thesis unfolding distributeThirds_eq using a b c by (simp add: ball_Un)
qed

lemma distributeThirds_sum:
  assumes "0 \<le> t" "3 \<le> d" "0 \<le> w1" "0 \<le> w2" "0 \<le> w3" "w1 + w2 + w3 = 1"
  shows "\<bar>sum_list (distributeThirds w1 w2 w3 t d) - t\<bar> \<le> 3/200"
proof -
  define f where "f = ceilDiv d 3"
  define s where "s = ceilDiv (d * 2) 3"
  have ne: "0 < f" "0 < s - f" "0 < d - s"
    using thirds_nonempty[OF assms(2)] by (simp_all add: f_def s_def)
  have a: "\<bar>sum_list (distributeEvenly (t * w1) f) - t * w1\<bar> \<le> 1/200"
    using assms ne by (intro distributeEvenly_sum) simp_all
  have b: "\<bar>sum_list (distributeEvenly (t * w2) (s - f)) - t * w2\<bar> \<le> 1/200"
    using assms ne by (intro distributeEvenly_sum) simp_all
  have c: "\<bar>sum_list (distributeEvenly (t * w3) (d - s)) - t * w3\<bar> \<le> 1/200"
    using assms ne by (intro distributeEvenly_sum) simp_all
  have "t = t * w1 + t * w2 + t * w3"
    using assms(6) by (metis distrib_left mult.right_neutral)
  moreover have "sum_list (distributeThirds w1 w2 w3 t d)
      = sum_list (distributeEvenly (t * w1) f) + sum_list (distributeEvenly (t * w2) (s - f))
        + sum_list (distributeEvenly (t * w3) (d - s))"
    using ne by (simp add: distributeThirds_eq thirdPart_def f_def s_def)
  ultimately show ?thesis using a b c by linarith
qed


lemma calc_length:
  "length (calculateDailyHoursDistribution t d strat) = d"
  by (cases strat)
     (simp_all add: calculateDailyHoursDistribution_def distributeFrontLoad_def
        distributeBackLoad_def distributeThirds_length length_distributeEvenly)

lemma calc_nonneg:
  assumes "0 \<le> t"
  shows "\<forall>x\<in>set (calculateDailyHoursDistribution t d strat). 0 \<le> x"
proof (cases "d = 0")
  case True
  then show ?thesis by (simp add: calculateDailyHoursDistribution_def)
next
  case False
  show ?thesis
  proof (cases strat)
    case FrontLoad
    have "\<forall>x\<in>set (distributeThirds (7/10) (2/10) (1/10) t d). 0 \<le> x"
      by (rule distributeThirds_nonneg) (simp_all add: assms)
    then show ?thesis using False FrontLoad
      by (simp add: calculateDailyHoursDistribution_def distributeFrontLoad_def)
  next
    case BackLoad
    have "\<forall>x\<in>set (distributeThirds (1/10) (2/10) (7/10) t d). 0 \<le> x"
      by (rule distributeThirds_nonneg) (simp_all add: assms)
    then show ?thesis using False BackLoad
      by (simp add: calculateDailyHoursDistribution_def distributeBackLoad_def)
  next
    case EvenLoad
    have "\<forall>x\<in>set (distributeEvenly t d). 0 \<le> x"
      by (rule distributeEvenly_nonneg) (rule assms)
    then show ?thesis using False EvenLoad
      by (simp add: calculateDailyHoursDistribution_def)
  qed
qed

lemma calc_sum_even:
  assumes "0 \<le> t" "0 < d"
  shows "\<bar>sum_list (calculateDailyHoursDistribution t d EvenLoad) - t\<bar> \<le> 1/200"
proof -
  have "calculateDailyHoursDistribution t d EvenLoad = distributeEvenly t d"
    using assms by (simp add: calculateDailyHoursDistribution_def)
  then show ?thesis using distributeEvenly_sum[OF assms] by simp
qed

lemma calc_sum_any:
  assumes "0 \<le> t" "3 \<le> d"
  shows "\<bar>sum_list (calculateDailyHoursDistribution t d strat) - t\<bar> \<le> 3/200"
proof (cases strat)
  case FrontLoad
  have e: "calculateDailyHoursDistribution t d strat = distributeThirds (7/10) (2/10) (1/10) t d"
    using assms FrontLoad by (simp add: calculateDailyHoursDistribution_def distributeFrontLoad_def)
  show ?thesis unfolding e by (rule distributeThirds_sum) (simp_all add: assms)
next
  case BackLoad
  have e: "calculateDailyHoursDistribution t d strat = distributeThirds (1/10) (2/10) (7/10) t d"
    using assms BackLoad by (simp add: calculateDailyHoursDistribution_def distributeBackLoad_def)
  show ?thesis unfolding e by (rule distributeThirds_sum) (simp_all add: assms)
next
  case EvenLoad
  have "0 < d" using assms by simp
  from calc_sum_even[OF assms(1) this] show ?thesis using EvenLoad by simp
qed


section \<open>Locked plans are kept\<close>

lemma lockedKept_refl: "lockedKept P P"
  by (simp add: lockedKept_def)

lemma lockedKept_trans: "lockedKept P Q \<Longrightarrow> lockedKept Q R \<Longrightarrow> lockedKept P R"
  unfolding lockedKept_def by (metis (no_types, lifting) le_trans less_le_trans)

lemma lockedKept_append: "lockedKept P (P @ Q)"
  by (simp add: lockedKept_def nth_append)


lemma length_updateFirst [simp]: "length (updateFirst t f xs) = length xs"
  by (induction xs) auto

lemma nth_updateFirst:
  "i < length xs \<Longrightarrow> updateFirst t f xs ! i = xs ! i \<or> updateFirst t f xs ! i = f (xs ! i)"
proof (induction xs arbitrary: i)
  case Nil
  then show ?case by simp
next
  case (Cons x xs)
  then show ?case by (cases i) auto
qed

lemma lockedKept_updateFirst: "lockSafe f \<Longrightarrow> lockedKept P (updateFirst t f P)"
  unfolding lockedKept_def lockSafe_def
  using nth_updateFirst[of _ P t f] by (metis length_updateFirst order_refl)

lemma lockSafe_pushSession: "lockSafe (pushSession s)"
  by (simp add: lockSafe_def pushSession_def)


lemma lockSafe_purge:
  "lockSafe (\<lambda>p. if isLocked p then p
              else (let kept = filter (keptByPurge tid) (plannedTasks p)
                    in p\<lparr>plannedTasks := kept, totalStudyHours := nonSkippedHours kept\<rparr>))"
  by (simp add: lockSafe_def Let_def)


lemma lockedKept_addSession: "lockedKept P (addSessionToPlan s d P st)"
proof -
  let ?P1 = "if planForDate d P = None then P @ [emptyPlan d st] else P"
  have a: "lockedKept P ?P1" by (simp add: lockedKept_append lockedKept_refl)
  have b: "lockedKept ?P1 (updateFirst (\<lambda>p. date p = d) (pushSession s) ?P1)"
    by (rule lockedKept_updateFirst) (rule lockSafe_pushSession)
  show ?thesis unfolding addSessionToPlan_def Let_def
    by (rule lockedKept_trans[OF a b])
qed

section \<open>What generation preserves\<close>

lemma scheduleDay_cases:
  "scheduleDay tid st fcs dh acc = acc
   \<or> (\<exists>start fin. 0 < snd dh
        \<and> slotOnDay (snd dh) (fst dh) (fst acc) st fcs = Some (fst dh, start, fin)
        \<and> scheduleDay tid st fcs dh acc
            = (addSessionToPlan (newSession tid (fst dh) start fin (snd dh) (snd acc))
                 (fst dh) (fst acc) st, snd acc + 1))"
proof -
  have one: "findNextAvailableTimeSlot h d W st fcs 1 = slotOnDay h d W st fcs" for h d W
    by (simp add: findNextAvailableTimeSlot_def split: option.splits)
  have dt: "slotOnDay h d W st fcs = Some (d', a, b) \<Longrightarrow> d' = d" for h d W d' a b
    by (auto simp: slotOnDay_def split: if_splits option.splits)
  show ?thesis
    unfolding scheduleDay_def Let_def one
    by (auto split: option.splits dest: dt)
qed


lemma generate_unfold:
  "generateNewStudyPlan clk tasks st fcs plans =
     (if tasksWithRemainingHours tasks plans = [] then plans
      else scheduleAll clk st fcs (taskStrategy clk (studyPlanMode st))
             (taskOrder clk (studyPlanMode st) (tasksWithRemainingHours tasks plans))
             (purgeAll (tasksWithRemainingHours tasks plans) plans))"
  by (cases "studyPlanMode st")
     (simp_all add: generateNewStudyPlan_def Let_def taskOrder_def taskStrategy_def
        generateEisenhowerPlan_def generateBalancedPriorityPlan_def
        generateEvenDistributionPlan_def scheduleAll_def)


lemma mset_taskOrder: "mset (taskOrder clk m ts) = mset ts"
proof (cases m)
  case ModeEisenhower
  have "mset (eisenhowerOrder clk ts) = mset ts"
    by (rule multiset_eqI) (simp add: eisenhowerOrder_def)
  then show ?thesis using ModeEisenhower by (simp add: taskOrder_def)
next
  case ModeBalanced
  have "mset (filter (\<lambda>t. importance (rtask t)) ts @ filter (\<lambda>t. \<not> importance (rtask t)) ts) = mset ts"
    by (rule multiset_eqI) simp
  then show ?thesis using ModeBalanced by (simp add: taskOrder_def)
next
  case ModeEven
  then show ?thesis by (simp add: taskOrder_def)
qed

subsection \<open>Session numbers\<close>

lemma fold_max_le:
  "fold (\<lambda>s m. if c s then max m (f s) else m) xs (a::int) \<le> b
   \<longleftrightarrow> a \<le> b \<and> (\<forall>s\<in>set xs. c s \<longrightarrow> f s \<le> b)"
  by (induction xs arbitrary: a) auto

lemma getNext_le_iff:
  "getNextSessionNumber tid W \<le> n
   \<longleftrightarrow> 1 \<le> n \<and> (\<forall>s\<in>set (allSessions W). taskId s = tid \<and> sessionNumber s \<noteq> 0 \<longrightarrow> sessionNumber s < n)"
proof -
  have "getNextSessionNumber tid W \<le> n \<longleftrightarrow>
      fold (\<lambda>s m. if taskId s = tid \<and> sessionNumber s \<noteq> 0 then max m (sessionNumber s) else m)
        (allSessions W) 0 \<le> n - 1"
    unfolding getNextSessionNumber_def by linarith
  also have "\<dots> \<longleftrightarrow> 0 \<le> n - 1 \<and> (\<forall>s\<in>set (allSessions W). taskId s = tid \<and> sessionNumber s \<noteq> 0 \<longrightarrow> sessionNumber s \<le> n - 1)"
    by (rule fold_max_le)
  finally show ?thesis by auto
qed

lemma getNext_above:
  "getNextSessionNumber tid W \<le> n \<Longrightarrow> s \<in> set (allSessions W) \<Longrightarrow> taskId s = tid
   \<Longrightarrow> sessionNumber s < n"
  using getNext_le_iff[of tid W n] by (cases "sessionNumber s = 0") auto

lemma allSessions_append [simp]: "allSessions (P @ Q) = allSessions P @ allSessions Q"
  by (simp add: allSessions_def)

lemma allSessions_emptyPlan [simp]: "allSessions [emptyPlan d st] = []"
  by (simp add: allSessions_def emptyPlan_def)

lemma set_allSessions_updateFirst_push:
  "set (allSessions (updateFirst t (pushSession s) W)) \<subseteq> insert s (set (allSessions W))"
proof (induction W)
  case Nil
  then show ?case by (simp add: allSessions_def)
next
  case (Cons p W)
  then show ?case by (auto simp: allSessions_def pushSession_def)
qed

lemma set_allSessions_addSession:
  "set (allSessions (addSessionToPlan s d W st)) \<subseteq> insert s (set (allSessions W))"
  using set_allSessions_updateFirst_push[of "\<lambda>p. date p = d" s "W @ [emptyPlan d st]"]
    set_allSessions_updateFirst_push[of "\<lambda>p. date p = d" s W]
  by (auto simp: addSessionToPlan_def Let_def)

lemma getNext_addSession:
  assumes "getNextSessionNumber tid W \<le> n" "sessionNumber s < n'" "n \<le> n'"
  shows "getNextSessionNumber tid (addSessionToPlan s d W st) \<le> n'"
proof -
  have "\<forall>x\<in>set (allSessions (addSessionToPlan s d W st)).
          taskId x = tid \<and> sessionNumber x \<noteq> 0 \<longrightarrow> sessionNumber x < n'"
  proof (intro ballI impI)
    fix x assume x: "x \<in> set (allSessions (addSessionToPlan s d W st))"
      and t: "taskId x = tid \<and> sessionNumber x \<noteq> 0"
    from x set_allSessions_addSession have "x = s \<or> x \<in> set (allSessions W)" by blast
    then show "sessionNumber x < n'"
    proof
      assume "x = s" then show ?thesis using assms(2) by simp
    next
      assume "x \<in> set (allSessions W)"
      then have "sessionNumber x < n" using assms(1) t getNext_above by blast
      then show ?thesis using assms(3) by simp
    qed
  qed
  moreover have "1 \<le> n'" using assms(1,3) getNext_le_iff[of tid W n] by simp
  ultimately show ?thesis by (simp add: getNext_le_iff)
qed

subsection \<open>An induction principle for generation\<close>

lemma fold_scheduleDay_preserves:
  assumes step: "\<And>d start fin h n W. Inv W \<Longrightarrow> getNextSessionNumber tid W \<le> n \<Longrightarrow> 0 < h
              \<Longrightarrow> slotOnDay h d W st fcs = Some (d, start, fin)
              \<Longrightarrow> Inv (addSessionToPlan (newSession tid d start fin h n) d W st)"
    and "Inv (fst acc)" "getNextSessionNumber tid (fst acc) \<le> snd acc"
  shows "Inv (fst (fold (scheduleDay tid st fcs) dhs acc))
       \<and> getNextSessionNumber tid (fst (fold (scheduleDay tid st fcs) dhs acc))
           \<le> snd (fold (scheduleDay tid st fcs) dhs acc)"
  using assms(2,3)
proof (induction dhs arbitrary: acc)
  case Nil
  then show ?case by simp
next
  case (Cons dh dhs)
  have "Inv (fst (scheduleDay tid st fcs dh acc))
      \<and> getNextSessionNumber tid (fst (scheduleDay tid st fcs dh acc))
          \<le> snd (scheduleDay tid st fcs dh acc)"
    using scheduleDay_cases[of tid st fcs dh acc]
  proof
    assume "scheduleDay tid st fcs dh acc = acc"
    then show ?thesis using Cons.prems by simp
  next
    assume "\<exists>start fin. 0 < snd dh
        \<and> slotOnDay (snd dh) (fst dh) (fst acc) st fcs = Some (fst dh, start, fin)
        \<and> scheduleDay tid st fcs dh acc
            = (addSessionToPlan (newSession tid (fst dh) start fin (snd dh) (snd acc))
                 (fst dh) (fst acc) st, snd acc + 1)"
    then obtain start fin where h: "0 < snd dh"
      and sl: "slotOnDay (snd dh) (fst dh) (fst acc) st fcs = Some (fst dh, start, fin)"
      and e: "scheduleDay tid st fcs dh acc
            = (addSessionToPlan (newSession tid (fst dh) start fin (snd dh) (snd acc))
                 (fst dh) (fst acc) st, snd acc + 1)" by blast
    have i: "Inv (addSessionToPlan (newSession tid (fst dh) start fin (snd dh) (snd acc))
                 (fst dh) (fst acc) st)"
      by (rule step[OF Cons.prems(1) Cons.prems(2) h sl])
    have n: "getNextSessionNumber tid (addSessionToPlan (newSession tid (fst dh) start fin (snd dh) (snd acc))
                 (fst dh) (fst acc) st) \<le> snd acc + 1"
      by (rule getNext_addSession[OF Cons.prems(2)]) (simp_all add: newSession_def)
    show ?thesis using i n by (simp add: e)
  qed
  then show ?case using Cons.IH[of "scheduleDay tid st fcs dh acc"] by simp
qed

lemma getNext_self: "getNextSessionNumber tid W \<le> getNextSessionNumber tid W"
  by simp

lemma scheduleTask_preserves:
  assumes step: "\<And>d start fin h n W. Inv W \<Longrightarrow> getNextSessionNumber (task_id (rtask t)) W \<le> n \<Longrightarrow> 0 < h
              \<Longrightarrow> slotOnDay h d W st fcs = Some (d, start, fin)
              \<Longrightarrow> Inv (addSessionToPlan (newSession (task_id (rtask t)) d start fin h n) d W st)"
    and "Inv W"
  shows "Inv (scheduleTaskWithStrategy clk st fcs t strat W)"
proof -
  have "Inv (fst (fold (scheduleDay (task_id (rtask t)) st fcs) dhs
                (W, getNextSessionNumber (task_id (rtask t)) W)))" for dhs
    using fold_scheduleDay_preserves[where Inv = Inv and tid = "task_id (rtask t)" and st = st
        and fcs = fcs and acc = "(W, getNextSessionNumber (task_id (rtask t)) W)" and dhs = dhs]
      step assms(2) by simp
  then show ?thesis using assms(2) by (simp add: scheduleTaskWithStrategy_def Let_def)
qed

lemma scheduleAll_preserves:
  assumes step: "\<And>tid d start fin h n W. Inv W \<Longrightarrow> getNextSessionNumber tid W \<le> n \<Longrightarrow> 0 < h
              \<Longrightarrow> slotOnDay h d W st fcs = Some (d, start, fin)
              \<Longrightarrow> Inv (addSessionToPlan (newSession tid d start fin h n) d W st)"
    and "Inv W"
  shows "Inv (scheduleAll clk st fcs strat ts W)"
  using assms(2)
proof (induction ts arbitrary: W)
  case Nil
  then show ?case by (simp add: scheduleAll_def)
next
  case (Cons t ts)
  have "Inv (scheduleTaskWithStrategy clk st fcs t (strat t) W)"
    by (rule scheduleTask_preserves) (use step Cons.prems in auto)
  from Cons.IH[OF this] show ?case by (simp add: scheduleAll_def)
qed

lemma purgeAll_preserves:
  assumes "\<And>tid W. Inv W \<Longrightarrow> Inv (removeUnlockedTaskSessions tid W)" "Inv W"
  shows "Inv (purgeAll ts W)"
  using assms(2)
proof (induction ts arbitrary: W)
  case Nil
  then show ?case by (simp add: purgeAll_def)
next
  case (Cons t ts)
  from Cons.IH[OF assms(1)[OF Cons.prems]] show ?case by (simp add: purgeAll_def)
qed



subsection \<open>Redistribution, merging and the validator\<close>












section \<open>The cached totals\<close>










subsection \<open>Sessions as multisets\<close>


lemma removeFirstKey_Some:
  "removeFirstKey x ss = Some rest \<Longrightarrow>
   \<exists>r. r \<in> set ss \<and> sameKey x r \<and> mset ss = add_mset r (mset rest)"
proof (induction ss arbitrary: rest)
  case Nil
  then show ?case by simp
next
  case (Cons s ss)
  show ?case
  proof (cases "sameKey x s")
    case True
    with Cons.prems show ?thesis by auto
  next
    case False
    with Cons.prems obtain rest' where r: "removeFirstKey x ss = Some rest'" "rest = s # rest'"
      by auto
    from Cons.IH[OF r(1)] obtain q where "q \<in> set ss" "sameKey x q" "mset ss = add_mset q (mset rest')"
      by blast
    then show ?thesis using r(2) by auto
  qed
qed

lemma sumHours_mset: "mset xs = mset ys \<Longrightarrow> sumHours xs = sumHours ys"
  unfolding sumHours_def by (metis mset_map sum_mset_sum_list)

lemma nonSkippedHours_mset:
  "mset ss = add_mset r (mset rest) \<Longrightarrow> status r \<noteq> Skipped
   \<Longrightarrow> nonSkippedHours ss = allocatedHours r + nonSkippedHours rest"
proof -
  assume a: "mset ss = add_mset r (mset rest)" and b: "status r \<noteq> Skipped"
  have "mset (filter (\<lambda>s. status s \<noteq> Skipped) ss)
      = mset (r # filter (\<lambda>s. status s \<noteq> Skipped) rest)"
    using a b by (simp add: mset_filter)
  from sumHours_mset[OF this] show ?thesis
    by (simp add: nonSkippedHours_def sumHours_def)
qed

lemma in_allSessions: "s \<in> set (allSessions W) \<longleftrightarrow> (\<exists>p\<in>set W. s \<in> set (plannedTasks p))"
  by (auto simp: allSessions_def)

lemma sameKey_sym: "sameKey a b \<Longrightarrow> sameKey b a"
  by (simp add: sameKey_def)

lemma sameKey_trans: "sameKey a b \<Longrightarrow> sameKey b c \<Longrightarrow> sameKey a c"
  by (simp add: sameKey_def)

section \<open>The store: who writes to the caller's objects\<close>






lemma find_app:
  "find P (xs @ ys) = (case find P xs of None \<Rightarrow> find P ys | Some x \<Rightarrow> Some x)"
  by (induction xs) simp_all



section \<open>Session numbers\<close>


lemma set_allSessions_updateFirst_push_sup:
  "set (allSessions W) \<subseteq> set (allSessions (updateFirst t (pushSession s) W))"
proof (induction W)
  case Nil
  then show ?case by (simp add: allSessions_def)
next
  case (Cons p W)
  then show ?case by (auto simp: allSessions_def pushSession_def)
qed

lemma set_allSessions_addSession_sup:
  "set (allSessions W) \<subseteq> set (allSessions (addSessionToPlan s d W st))"
  using set_allSessions_updateFirst_push_sup[of "W @ [emptyPlan d st]" "\<lambda>p. date p = d" s]
    set_allSessions_updateFirst_push_sup[of W "\<lambda>p. date p = d" s]
  by (auto simp: addSessionToPlan_def Let_def)

lemma keepsAndNumbers_step:
  assumes "keepsAndNumbers W W'" "getNextSessionNumber tid W' \<le> n"
  shows "keepsAndNumbers W (addSessionToPlan (newSession tid d start fin h n) d W' st)"
proof -
  let ?new = "newSession tid d start fin h n"
  have sub: "set (allSessions W) \<subseteq> set (allSessions (addSessionToPlan ?new d W' st))"
    using assms(1) set_allSessions_addSession_sup unfolding keepsAndNumbers_def by blast
  have above: "numberedAbove W ?new"
    unfolding numberedAbove_def
  proof (intro ballI impI)
    fix s' assume "s' \<in> set (allSessions W)" "taskId s' = taskId ?new"
    then have "s' \<in> set (allSessions W')" "taskId s' = tid"
      using assms(1) unfolding keepsAndNumbers_def by (auto simp: newSession_def)
    from getNext_above[OF assms(2) this] show "sessionNumber s' < sessionNumber ?new"
      by (simp add: newSession_def)
  qed
  have "s \<in> set (allSessions W) \<or> numberedAbove W s"
    if "s \<in> set (allSessions (addSessionToPlan ?new d W' st))" for s
  proof -
    from that set_allSessions_addSession have "s = ?new \<or> s \<in> set (allSessions W')" by blast
    then show ?thesis using above assms(1) unfolding keepsAndNumbers_def by blast
  qed
  then show ?thesis using sub unfolding keepsAndNumbers_def by blast
qed

lemma keepsAndNumbers_generate:
  "keepsAndNumbers (purgedPlans tasks plans) (generateNewStudyPlan clk tasks st fcs plans)"
proof (cases "tasksWithRemainingHours tasks plans = []")
  case True
  then show ?thesis
    by (simp add: generate_unfold purgedPlans_def purgeAll_def keepsAndNumbers_def)
next
  case False
  have "keepsAndNumbers (purgedPlans tasks plans)
          (scheduleAll clk st fcs (taskStrategy clk (studyPlanMode st))
             (taskOrder clk (studyPlanMode st) (tasksWithRemainingHours tasks plans))
             (purgedPlans tasks plans))"
  proof (rule scheduleAll_preserves[where Inv = "keepsAndNumbers (purgedPlans tasks plans)"])
    show "keepsAndNumbers (purgedPlans tasks plans) (purgedPlans tasks plans)"
      by (simp add: keepsAndNumbers_def)
  next
    fix tid d start fin h n W
    assume "keepsAndNumbers (purgedPlans tasks plans) W" "getNextSessionNumber tid W \<le> n"
    then show "keepsAndNumbers (purgedPlans tasks plans)
                 (addSessionToPlan (newSession tid d start fin h n) d W st)"
      by (rule keepsAndNumbers_step)
  qed
  then show ?thesis using False by (simp add: generate_unfold purgedPlans_def)
qed

lemma set_allSessions_updateFirst_splice:
  "set (allSessions (updateFirst t (spliceOriginal x) W)) \<subseteq> set (allSessions W)"
proof -
  have r: "removeFirstKey x ss = Some rest \<Longrightarrow> set rest \<subseteq> set ss" for ss rest
    using removeFirstKey_Some[of x ss rest]
    by (metis set_mset_add_mset_insert set_mset_mset subset_insertI)
  have p: "set (plannedTasks (spliceOriginal x p)) \<subseteq> set (plannedTasks p)" for p
    using r by (auto simp: spliceOriginal_def split: option.splits)
  show ?thesis
  proof (induction W)
    case Nil
    then show ?case by (simp add: allSessions_def)
  next
    case (Cons q W)
    then show ?case using p[of q] by (auto simp: allSessions_def)
  qed
qed

lemma collectMissed_sessions:
  "m \<in> set (collectMissed clk tasks plans) \<Longrightarrow> m_session m \<in> set (allSessions plans)"
  by (auto simp: collectMissed_def allSessions_def split: if_splits option.splits)

lemma keyKnown_moveMissed:
  assumes "\<forall>s\<in>set (allSessions (ms_plans acc)). keyKnown plans s" "m_session m \<in> set (allSessions plans)"
  shows "\<forall>s\<in>set (allSessions (ms_plans (moveMissed clk st fcs m acc))). keyKnown plans s"
proof (cases "findNextAvailableTimeSlot (allocatedHours (m_session m)) (today clk) (ms_plans acc) st fcs
                \<lceil>(of_int (bufferedDeadline (m_task m) st - now clk) :: rat) / of_int msPerDay\<rceil>")
  case None
  then show ?thesis using assms(1) by (simp add: moveMissed_def Let_def)
next
  case (Some r)
  obtain slotDate start fin where r: "r = (slotDate, start, fin)" by (cases r)
  define W1 where "W1 = updateFirst (\<lambda>p. date p = m_planDate m) (spliceOriginal (m_session m)) (ms_plans acc)"
  define moved where "moved = (m_session m)\<lparr>startTime := start, endTime := fin, status := Rescheduled,
                                  isManualOverride := Some False,
                                  originalTime := Some (startTime (m_session m)),
                                  originalDate := Some (m_planDate m),
                                  rescheduledAt := Some (now clk)\<rparr>"
  have k: "keyKnown plans moved"
    unfolding keyKnown_def using assms(2) by (auto simp: moved_def sameKey_def)
  have "set (allSessions (addSessionToPlan moved slotDate W1 st)) \<subseteq> insert moved (set (allSessions (ms_plans acc)))"
    using set_allSessions_addSession[of moved slotDate W1 st]
      set_allSessions_updateFirst_splice[of "\<lambda>p. date p = m_planDate m" "m_session m" "ms_plans acc"]
    unfolding W1_def by blast
  then have "\<forall>s\<in>set (allSessions (addSessionToPlan moved slotDate W1 st)). keyKnown plans s"
    using k assms(1) by blast
  then show ?thesis
    using Some unfolding moveMissed_def Let_def r W1_def moved_def by simp
qed

lemma keyKnown_fold_moveMissed:
  assumes "\<forall>s\<in>set (allSessions (ms_plans acc)). keyKnown plans s"
    "\<forall>m\<in>set ms. m_session m \<in> set (allSessions plans)"
  shows "\<forall>s\<in>set (allSessions (ms_plans (fold (moveMissed clk st fcs) ms acc))). keyKnown plans s"
  using assms
proof (induction ms arbitrary: acc)
  case Nil
  then show ?case by simp
next
  case (Cons m ms)
  have "\<forall>s\<in>set (allSessions (ms_plans (moveMissed clk st fcs m acc))). keyKnown plans s"
    by (rule keyKnown_moveMissed) (use Cons.prems in auto)
  from Cons.IH[OF this] Cons.prems(2) show ?case by simp
qed

lemma keyKnown_redistributeMissed:
  "\<forall>s\<in>set (allSessions (updatedPlans (redistributeMissedSessionsWithFeedback clk plans st fcs tasks))).
     keyKnown plans s"
proof -
  have i: "\<forall>s\<in>set (allSessions plans). keyKnown plans s"
    unfolding keyKnown_def sameKey_def by blast
  have "\<forall>s\<in>set (allSessions (ms_plans (fold (moveMissed clk st fcs)
            (sortByPriority (collectMissed clk tasks plans))
            \<lparr>ms_plans = plans, ms_moved = [], ms_failed = []\<rparr>))). keyKnown plans s"
    by (rule keyKnown_fold_moveMissed) (use i collectMissed_sessions in \<open>auto simp: sortByPriority_def\<close>)
  then show ?thesis using i by (simp add: redistributeMissedSessionsWithFeedback_def Let_def)
qed


section \<open>Repeating a generation pass\<close>

subsection \<open>The purge, plan by plan\<close>

lemma keptByAll_Nil [simp]: "keptByAll [] s"
  by (simp add: keptByAll_def)

lemma keptByAll_snoc: "keptByAll (S @ [t]) s \<longleftrightarrow> keptByAll S s \<and> keptByPurge (task_id (rtask t)) s"
  by (auto simp: keptByAll_def)

lemma removeUnlocked_purgePlan:
  "removeUnlockedTaskSessions (task_id (rtask t)) (map (purgePlan S) W) = map (purgePlan (S @ [t])) W"
proof -
  have "(if isLocked (purgePlan S p) then purgePlan S p
         else (let kept = filter (keptByPurge (task_id (rtask t))) (plannedTasks (purgePlan S p))
               in (purgePlan S p)\<lparr>plannedTasks := kept, totalStudyHours := nonSkippedHours kept\<rparr>))
        = purgePlan (S @ [t]) p" for p
  proof -
    have f: "filter (\<lambda>x. keptByAll S x \<and> keptByPurge (task_id (rtask t)) x) xs
           = filter (keptByAll (S @ [t])) xs" for xs
      by (rule filter_cong) (auto simp: keptByAll_snoc)
    have g: "filter (keptByPurge (task_id (rtask t))) xs = filter (keptByAll [t]) xs" for xs
      by (rule filter_cong) (auto simp: keptByAll_def)
    show ?thesis
      by (cases "S = []") (simp_all add: purgePlan_def Let_def f g)
  qed
  then show ?thesis by (simp add: removeUnlockedTaskSessions_def)
qed

lemma fold_purge_map:
  "fold (\<lambda>t. removeUnlockedTaskSessions (task_id (rtask t))) T (map (purgePlan S) W)
     = map (purgePlan (S @ T)) W"
proof (induction T arbitrary: S)
  case Nil
  then show ?case by simp
next
  case (Cons t T)
  show ?case using Cons.IH[of "S @ [t]"] by (simp add: removeUnlocked_purgePlan)
qed

lemma purgePlan_Nil [simp]: "purgePlan [] p = p"
  by (simp add: purgePlan_def)

lemma map_purgePlan_Nil [simp]: "map (purgePlan []) W = W"
  by (induction W) simp_all

lemma purgeAll_map: "purgeAll T W = map (purgePlan T) W"
  using fold_purge_map[of T "[]" W] by (simp add: purgeAll_def)

lemma purgePlan_frame [simp]:
  "date (purgePlan T p) = date p" "isLocked (purgePlan T p) = isLocked p"
  by (simp_all add: purgePlan_def)







lemma date_pushSession [simp]: "date (pushSession s p) = date p"
  by (simp add: pushSession_def)



lemma updateFirst_append_miss:
  "\<forall>x\<in>set xs. \<not> t x \<Longrightarrow> updateFirst t g (xs @ ys) = xs @ updateFirst t g ys"
  by (induction xs) auto

lemma planForDate_None_iff: "planForDate d W = None \<longleftrightarrow> (\<forall>p\<in>set W. date p \<noteq> d)"
  by (auto simp: planForDate_def find_None_iff)

lemma addSession_new_day:
  "planForDate d W = None \<Longrightarrow> addSessionToPlan s d W st = W @ [pushSession s (emptyPlan d st)]"
  by (simp add: addSessionToPlan_def Let_def updateFirst_append_miss planForDate_None_iff emptyPlan_def)

lemma addSession_old_day:
  "planForDate d W \<noteq> None \<Longrightarrow> addSessionToPlan s d W st = updateFirst (\<lambda>p. date p = d) (pushSession s) W"
  by (auto simp: addSessionToPlan_def Let_def)



subsection \<open>A padded collection looks the same to the scheduler\<close>

















lemma lockedKept_scheduleTask: "lockedKept W (scheduleTaskWithStrategy clk st fcs t strat W)"
  by (rule scheduleTask_preserves[where Inv = "lockedKept W"])
     (use lockedKept_addSession lockedKept_trans lockedKept_refl in blast)+




subsection \<open>The second pass starts from the padded purge of the first\<close>







subsection \<open>Distinct session keys are kept, and make the accounting local\<close>

lemma allSessions_Cons: "allSessions (p # W) = plannedTasks p @ allSessions W"
  by (simp add: allSessions_def)

lemma distinctKeys_Cons:
  "distinctKeys (p # W) \<longleftrightarrow>
     distinct (map sessionKey (plannedTasks p)) \<and> distinctKeys W
     \<and> sessionKey ` set (plannedTasks p) \<inter> sessionKey ` set (allSessions W) = {}"
  by (simp add: distinctKeys_def allSessions_Cons)








lemma isSessionLocked_Cons:
  "isSessionLocked s (q # W)
     = (if \<exists>s'\<in>set (plannedTasks q). sameKey s s' then isLocked q else isSessionLocked s W)"
  by (simp add: isSessionLocked_def)

lemma sameKey_sessionKey: "sameKey s s' \<longleftrightarrow> sessionKey s' = sessionKey s"
  by (auto simp: sameKey_def sessionKey_def)

lemma isSessionLocked_local:
  "distinctKeys W \<Longrightarrow> p \<in> set W \<Longrightarrow> s \<in> set (plannedTasks p) \<Longrightarrow> isSessionLocked s W = isLocked p"
proof (induction W)
  case Nil
  then show ?case by simp
next
  case (Cons q W)
  show ?case
  proof (cases "\<exists>s'\<in>set (plannedTasks q). sameKey s s'")
    case False
    then have "p \<noteq> q" using Cons.prems(3) by (auto simp: sameKey_def)
    then have "p \<in> set W" using Cons.prems(2) by simp
    from Cons.IH[OF _ this Cons.prems(3)] Cons.prems(1) False show ?thesis
      by (simp add: isSessionLocked_Cons distinctKeys_Cons)
  next
    case True
    then obtain s' where s': "s' \<in> set (plannedTasks q)" "sessionKey s' = sessionKey s"
      by (auto simp: sameKey_sessionKey)
    have "p = q"
    proof (rule ccontr)
      assume "p \<noteq> q"
      then have "p \<in> set W" using Cons.prems(2) by simp
      then have "s \<in> set (allSessions W)" using Cons.prems(3) in_allSessions by blast
      then have "sessionKey s \<in> sessionKey ` set (allSessions W)" by blast
      moreover have "sessionKey s \<in> sessionKey ` set (plannedTasks q)"
        using s' by (metis imageI)
      ultimately show False using Cons.prems(1) by (auto simp: distinctKeys_Cons)
    qed
    then show ?thesis using True by (simp add: isSessionLocked_Cons)
  qed
qed

lemma sumHours_append: "sumHours (xs @ ys) = sumHours xs + sumHours ys"
  by (simp add: sumHours_def)

lemma accounted_local_aux:
  assumes "distinctKeys W" "set V \<subseteq> set W"
  shows "sumHours (filter (\<lambda>s. done_flag s \<or> status s = Completed \<or> status s = Skipped
                            \<or> isSessionLocked s W) (taskSessions tid V))
       = sum_list (map (accountedInPlan tid) V)"
  using assms(2)
proof (induction V)
  case Nil
  then show ?case by (simp add: taskSessions_def sumHours_def)
next
  case (Cons p V)
  have pin: "p \<in> set W" using Cons.prems by simp
  have f: "filter (\<lambda>s. done_flag s \<or> status s = Completed \<or> status s = Skipped \<or> isSessionLocked s W)
             (filter (\<lambda>s. taskId s = tid) (plannedTasks p))
         = filter (\<lambda>s. taskId s = tid
                 \<and> (done_flag s \<or> status s = Completed \<or> status s = Skipped \<or> isLocked p))
               (plannedTasks p)"
    unfolding filter_filter
    by (rule filter_cong) (auto simp: isSessionLocked_local[OF assms(1) pin])
  have t: "taskSessions tid (p # V) = filter (\<lambda>s. taskId s = tid) (plannedTasks p) @ taskSessions tid V"
    by (simp add: taskSessions_def)
  show ?case
    unfolding t filter_append sumHours_append f
    using Cons by (simp add: accountedInPlan_def)
qed

lemma accounted_local:
  "distinctKeys W \<Longrightarrow> accountedHours tid W = sum_list (map (accountedInPlan tid) W)"
  using accounted_local_aux[of W W tid] by (simp add: accountedHours_def)









section \<open>Conservation of a task's hours\<close>

subsection \<open>What one placement adds\<close>

lemma taskSessions_filter: "taskSessions tid W = filter (\<lambda>s. taskId s = tid) (allSessions W)"
  by (induction W) (simp_all add: taskSessions_def allSessions_def)

lemma planForDate_Some_props: "planForDate d W = Some p \<Longrightarrow> p \<in> set W \<and> date p = d"
  by (auto simp: planForDate_def find_Some_iff)

lemma mset_allSessions_updateFirst_unlocked:
  assumes "find t W = Some p" "\<not> isLocked p"
  shows "mset (allSessions (updateFirst t (pushSession s) W)) = add_mset s (mset (allSessions W))"
  using assms
proof (induction W)
  case Nil
  then show ?case by simp
next
  case (Cons q W)
  then show ?case by (auto simp: allSessions_Cons pushSession_def split: if_splits)
qed

lemma mset_allSessions_addSession_open:
  assumes "\<not> dayIsLocked d W"
  shows "mset (allSessions (addSessionToPlan s d W st)) = add_mset s (mset (allSessions W))"
proof (cases "planForDate d W")
  case None
  then show ?thesis
    by (simp add: addSession_new_day pushSession_def emptyPlan_def allSessions_def)
next
  case (Some p)
  then have "\<not> isLocked p" using assms by (simp add: dayIsLocked_def)
  from mset_allSessions_updateFirst_unlocked[OF _ this, of "\<lambda>p. date p = d" W s] Some
  show ?thesis by (simp add: addSession_old_day planForDate_def)
qed

lemma taskHours_mset:
  assumes "mset (allSessions W') = add_mset s (mset (allSessions W))"
  shows "taskHours tid W' = taskHours tid W
           + (if taskId s = tid \<and> status s \<noteq> Skipped then allocatedHours s else 0)"
    and "taskCount tid W' = taskCount tid W + (if taskId s = tid then 1 else 0)"
proof -
  have m: "mset (filter Q (allSessions W')) = mset (filter Q (s # allSessions W))" for Q
    using assms by (simp add: mset_filter)
  have "sumHours (filter (\<lambda>x. status x \<noteq> Skipped) (filter (\<lambda>x. taskId x = tid) (allSessions W')))
      = sumHours (filter (\<lambda>x. status x \<noteq> Skipped) (filter (\<lambda>x. taskId x = tid) (s # allSessions W)))"
    unfolding filter_filter by (rule sumHours_mset) (rule m)
  then show "taskHours tid W' = taskHours tid W
           + (if taskId s = tid \<and> status s \<noteq> Skipped then allocatedHours s else 0)"
    by (simp add: taskHours_def nonSkippedHours_def taskSessions_filter sumHours_def)
  have "length (filter (\<lambda>x. taskId x = tid) (allSessions W'))
      = length (filter (\<lambda>x. taskId x = tid) (s # allSessions W))"
    using m[of "\<lambda>x. taskId x = tid"] by (metis size_mset)
  then show "taskCount tid W' = taskCount tid W + (if taskId s = tid then 1 else 0)"
    by (simp add: taskCount_def taskSessions_filter)
qed

lemma slotOnDay_open: "slotOnDay h d W st fcs = Some r \<Longrightarrow> \<not> dayIsLocked d W"
  by (auto simp: slotOnDay_def split: if_splits)

lemma scheduleDay_effect:
  "(fst (scheduleDay tid' st fcs dh acc) = fst acc
     \<and> taskHours tid (fst (scheduleDay tid' st fcs dh acc)) = taskHours tid (fst acc)
     \<and> taskCount tid (fst (scheduleDay tid' st fcs dh acc)) = taskCount tid (fst acc))
   \<or> (0 < snd dh
     \<and> taskHours tid (fst (scheduleDay tid' st fcs dh acc))
         = taskHours tid (fst acc) + (if tid' = tid then snd dh else 0)
     \<and> taskCount tid (fst (scheduleDay tid' st fcs dh acc))
         = taskCount tid (fst acc) + (if tid' = tid then 1 else 0))"
  using scheduleDay_cases[of tid' st fcs dh acc]
proof
  assume "scheduleDay tid' st fcs dh acc = acc"
  then show ?thesis by simp
next
  assume "\<exists>start fin. 0 < snd dh
        \<and> slotOnDay (snd dh) (fst dh) (fst acc) st fcs = Some (fst dh, start, fin)
        \<and> scheduleDay tid' st fcs dh acc
            = (addSessionToPlan (newSession tid' (fst dh) start fin (snd dh) (snd acc))
                 (fst dh) (fst acc) st, snd acc + 1)"
  then obtain start fin where h: "0 < snd dh"
    and sl: "slotOnDay (snd dh) (fst dh) (fst acc) st fcs = Some (fst dh, start, fin)"
    and e: "scheduleDay tid' st fcs dh acc
            = (addSessionToPlan (newSession tid' (fst dh) start fin (snd dh) (snd acc))
                 (fst dh) (fst acc) st, snd acc + 1)" by blast
  let ?new = "newSession tid' (fst dh) start fin (snd dh) (snd acc)"
  have m: "mset (allSessions (addSessionToPlan ?new (fst dh) (fst acc) st))
         = add_mset ?new (mset (allSessions (fst acc)))"
    by (rule mset_allSessions_addSession_open) (rule slotOnDay_open[OF sl])
  show ?thesis
    using h taskHours_mset[OF m, of tid] by (simp add: e newSession_def)
qed


subsection \<open>What the scheduling of a task adds\<close>

lemma gainBounds_refl_Nil: "gainBounds tid W W []"
  by (simp add: gainBounds_def)

lemma fold_scheduleDay_own:
  "gainBounds tid (fst acc) (fst (fold (scheduleDay tid st fcs) dhs acc)) (map snd dhs)"
proof (induction dhs arbitrary: acc)
  case Nil
  then show ?case by (simp add: gainBounds_def)
next
  case (Cons dh dhs)
  let ?a1 = "scheduleDay tid st fcs dh acc"
  let ?r = "fold (scheduleDay tid st fcs) dhs ?a1"
  note ih = Cons.IH[of ?a1, unfolded gainBounds_def]
  have nn: "0 \<le> sum_list (filter (\<lambda>h. 0 < h) (map snd dhs))"
    by (rule sum_list_nonneg) auto
  from scheduleDay_effect[of tid st fcs dh acc tid]
  show ?case
  proof
    assume same: "fst ?a1 = fst acc \<and> taskHours tid (fst ?a1) = taskHours tid (fst acc)
        \<and> taskCount tid (fst ?a1) = taskCount tid (fst acc)"
    show ?thesis
    proof (cases "0 < snd dh")
      case True
      then show ?thesis using same ih unfolding gainBounds_def by simp
    next
      case False
      then show ?thesis using same ih unfolding gainBounds_def by simp
    qed
  next
    assume placed: "0 < snd dh
        \<and> taskHours tid (fst ?a1) = taskHours tid (fst acc) + (if tid = tid then snd dh else 0)
        \<and> taskCount tid (fst ?a1) = taskCount tid (fst acc) + (if tid = tid then 1 else 0)"
    then show ?thesis using ih unfolding gainBounds_def by simp
  qed
qed

lemma fold_scheduleDay_other:
  "tid' \<noteq> tid \<Longrightarrow>
   taskHours tid (fst (fold (scheduleDay tid' st fcs) dhs acc)) = taskHours tid (fst acc)
   \<and> taskCount tid (fst (fold (scheduleDay tid' st fcs) dhs acc)) = taskCount tid (fst acc)"
proof (induction dhs arbitrary: acc)
  case Nil
  then show ?case by simp
next
  case (Cons dh dhs)
  from scheduleDay_effect[of tid' st fcs dh acc tid] Cons.prems
  have "taskHours tid (fst (scheduleDay tid' st fcs dh acc)) = taskHours tid (fst acc)
      \<and> taskCount tid (fst (scheduleDay tid' st fcs dh acc)) = taskCount tid (fst acc)"
    by auto
  then show ?case using Cons.IH[OF Cons.prems, of "scheduleDay tid' st fcs dh acc"] by simp
qed

lemma scheduleTask_other:
  "task_id (rtask t') \<noteq> tid \<Longrightarrow>
   taskHours tid (scheduleTaskWithStrategy clk st fcs t' strat W) = taskHours tid W
   \<and> taskCount tid (scheduleTaskWithStrategy clk st fcs t' strat W) = taskCount tid W"
  using fold_scheduleDay_other[of "task_id (rtask t')" tid st fcs _
      "(W, getNextSessionNumber (task_id (rtask t')) W)"]
  by (simp add: scheduleTaskWithStrategy_def Let_def)

lemma scheduleTask_own:
  assumes "0 < remainingHours t'"
  shows "gainBounds (task_id (rtask t')) W (scheduleTaskWithStrategy clk st fcs t' strat W)
           (calculateDailyHoursDistribution (remainingHours t')
              (length (getAvailableDaysForTask clk (rtask t') W st)) strat)"
proof (cases "getAvailableDaysForTask clk (rtask t') W st = []")
  case True
  then show ?thesis
    by (simp add: scheduleTaskWithStrategy_def Let_def calculateDailyHoursDistribution_def
        gainBounds_def)
next
  case False
  let ?days = "getAvailableDaysForTask clk (rtask t') W st"
  let ?dv = "calculateDailyHoursDistribution (remainingHours t') (length ?days) strat"
  have "map snd (zip ?days ?dv) = ?dv" by (simp add: calc_length)
  then show ?thesis
    using False assms fold_scheduleDay_own[of "task_id (rtask t')"
        "(W, getNextSessionNumber (task_id (rtask t')) W)" st fcs "zip ?days ?dv"]
    by (simp add: scheduleTaskWithStrategy_def Let_def)
qed

subsection \<open>Lock flags by date do not change during a pass\<close>

lemma dayIsLocked_append_empty: "dayIsLocked d' (W @ [emptyPlan d st]) = dayIsLocked d' W"
  by (simp add: dayIsLocked_def planForDate_def find_app emptyPlan_def split: option.splits)

lemma dayIsLocked_updateFirst:
  "lockSafe g \<Longrightarrow> dayIsLocked d' (updateFirst t g W) = dayIsLocked d' W"
proof (induction W)
  case Nil
  then show ?case by simp
next
  case (Cons p W)
  then show ?case by (auto simp: dayIsLocked_def planForDate_def lockSafe_def)
qed

lemma dayIsLocked_map: "lockSafe g \<Longrightarrow> dayIsLocked d' (map g W) = dayIsLocked d' W"
proof (induction W)
  case Nil
  then show ?case by simp
next
  case (Cons p W)
  then show ?case by (auto simp: dayIsLocked_def planForDate_def lockSafe_def)
qed

lemma dayIsLocked_addSession: "dayIsLocked d' (addSessionToPlan s d W st) = dayIsLocked d' W"
  unfolding addSessionToPlan_def Let_def
  by (simp add: dayIsLocked_updateFirst[OF lockSafe_pushSession] dayIsLocked_append_empty)

lemma dayIsLocked_removeUnlocked: "dayIsLocked d' (removeUnlockedTaskSessions tid W) = dayIsLocked d' W"
  unfolding removeUnlockedTaskSessions_def by (rule dayIsLocked_map) (rule lockSafe_purge)

lemma dayIsLocked_scheduleTask:
  "dayIsLocked d' (scheduleTaskWithStrategy clk st fcs t strat W) = dayIsLocked d' W"
  by (rule scheduleTask_preserves[where Inv = "\<lambda>X. dayIsLocked d' X = dayIsLocked d' W"])
     (simp_all add: dayIsLocked_addSession)

lemma dayIsLocked_purgeAll: "dayIsLocked d' (purgeAll T W) = dayIsLocked d' W"
  by (rule purgeAll_preserves[where Inv = "\<lambda>X. dayIsLocked d' X = dayIsLocked d' W"])
     (simp_all add: dayIsLocked_removeUnlocked)

lemma availableDays_view:
  "(\<And>d. dayIsLocked d W = dayIsLocked d P0)
   \<Longrightarrow> getAvailableDaysForTask clk t W st = getAvailableDaysForTask clk t P0 st"
  by (simp add: getAvailableDaysForTask_def)

subsection \<open>A whole pass, for a task scheduled once\<close>

lemma scheduleAll_gain:
  assumes "task_id (rtask tr) = tid" "0 < remainingHours tr"
    and "\<And>d. dayIsLocked d W = dayIsLocked d P0"
  shows "(filter (\<lambda>t'. task_id (rtask t') = tid) ts = []
            \<longrightarrow> taskHours tid (scheduleAll clk st fcs strat ts W) = taskHours tid W
              \<and> taskCount tid (scheduleAll clk st fcs strat ts W) = taskCount tid W)
       \<and> (filter (\<lambda>t'. task_id (rtask t') = tid) ts = [tr]
            \<longrightarrow> gainBounds tid W (scheduleAll clk st fcs strat ts W)
                  (calculateDailyHoursDistribution (remainingHours tr)
                     (length (getAvailableDaysForTask clk (rtask tr) P0 st)) (strat tr)))"
  using assms(3)
proof (induction ts arbitrary: W)
  case Nil
  then show ?case by (simp add: scheduleAll_def)
next
  case (Cons t' ts)
  let ?W1 = "scheduleTaskWithStrategy clk st fcs t' (strat t') W"
  have view1: "\<And>d. dayIsLocked d ?W1 = dayIsLocked d P0"
    using Cons.prems by (simp add: dayIsLocked_scheduleTask)
  note ih = Cons.IH[OF view1]
  have sa: "scheduleAll clk st fcs strat (t' # ts) W = scheduleAll clk st fcs strat ts ?W1"
    by (simp add: scheduleAll_def)
  show ?case
  proof (cases "task_id (rtask t') = tid")
    case False
    then show ?thesis using ih scheduleTask_other[OF False, of clk st fcs "strat t'" W]
      unfolding sa gainBounds_def by simp
  next
    case True
    have none: "filter (\<lambda>t'. task_id (rtask t') = tid) (t' # ts) \<noteq> []" using True by simp
    have p1: "filter (\<lambda>t'. task_id (rtask t') = tid) (t' # ts) = []
            \<longrightarrow> taskHours tid (scheduleAll clk st fcs strat (t' # ts) W) = taskHours tid W
              \<and> taskCount tid (scheduleAll clk st fcs strat (t' # ts) W) = taskCount tid W"
      using none by simp
    have p2: "filter (\<lambda>t'. task_id (rtask t') = tid) (t' # ts) = [tr]
            \<longrightarrow> gainBounds tid W (scheduleAll clk st fcs strat (t' # ts) W)
                  (calculateDailyHoursDistribution (remainingHours tr)
                     (length (getAvailableDaysForTask clk (rtask tr) P0 st)) (strat tr))"
    proof
      assume one: "filter (\<lambda>t'. task_id (rtask t') = tid) (t' # ts) = [tr]"
      then have e: "t' = tr" and rest: "filter (\<lambda>t'. task_id (rtask t') = tid) ts = []"
        using True by simp_all
      have days: "getAvailableDaysForTask clk (rtask tr) W st = getAvailableDaysForTask clk (rtask tr) P0 st"
        by (rule availableDays_view) (rule Cons.prems)
      have g: "gainBounds tid W ?W1
                 (calculateDailyHoursDistribution (remainingHours tr)
                    (length (getAvailableDaysForTask clk (rtask tr) P0 st)) (strat tr))"
        using scheduleTask_own[OF assms(2), of W clk st fcs "strat tr"] assms(1) days e by simp
      show "gainBounds tid W (scheduleAll clk st fcs strat (t' # ts) W)
                  (calculateDailyHoursDistribution (remainingHours tr)
                     (length (getAvailableDaysForTask clk (rtask tr) P0 st)) (strat tr))"
        using g ih rest unfolding sa gainBounds_def by simp
    qed
    show ?thesis by (rule conjI[OF p1 p2])
  qed
qed


subsection \<open>What the purge leaves of a task\<close>

lemma sumHours_split:
  "sumHours (filter P xs) = sumHours (filter (\<lambda>x. P x \<and> Q x) xs) + sumHours (filter (\<lambda>x. P x \<and> \<not> Q x) xs)"
  by (induction xs) (simp_all add: sumHours_def)

lemma taskHours_sum: "taskHours tid W = sum_list (map (planTaskHours tid) W)"
proof (induction W)
  case Nil
  then show ?case by (simp add: taskHours_def taskSessions_def nonSkippedHours_def sumHours_def)
next
  case (Cons p W)
  have "taskHours tid (p # W) = planTaskHours tid p + taskHours tid W"
    by (simp add: taskHours_def taskSessions_def nonSkippedHours_def sumHours_append
        planTaskHours_def conj_commute)
  then show ?case using Cons by simp
qed

lemma skippedHours_sum: "skippedHours tid W = sum_list (map (planSkippedHours tid) W)"
proof (induction W)
  case Nil
  then show ?case by (simp add: skippedHours_def taskSessions_def sumHours_def)
next
  case (Cons p W)
  have "skippedHours tid (p # W) = planSkippedHours tid p + skippedHours tid W"
    by (simp add: skippedHours_def taskSessions_def sumHours_append planSkippedHours_def conj_commute)
  then show ?case using Cons by simp
qed

lemma accountedInPlan_split:
  assumes "tr \<in> set T" "task_id (rtask tr) = tid"
  shows "accountedInPlan tid p = planTaskHours tid (purgePlan T p) + planSkippedHours tid p"
proof -
  let ?A = "\<lambda>s. taskId s = tid
                 \<and> (done_flag s \<or> status s = Completed \<or> status s = Skipped \<or> isLocked p)"
  have T: "T \<noteq> []" using assms(1) by auto
  have k: "taskId s = tid \<Longrightarrow> keptByAll T s \<longleftrightarrow> done_flag s \<or> status s = Completed \<or> status s = Skipped" for s
  proof -
    assume i: "taskId s = tid"
    have "keptByAll T s \<longrightarrow> done_flag s \<or> status s = Completed \<or> status s = Skipped"
      using assms i unfolding keptByAll_def keptByPurge_def by blast
    moreover have "done_flag s \<or> status s = Completed \<or> status s = Skipped \<longrightarrow> keptByAll T s"
      unfolding keptByAll_def keptByPurge_def by blast
    ultimately show ?thesis by blast
  qed
  have a: "filter (\<lambda>s. ?A s \<and> status s \<noteq> Skipped) (plannedTasks p)
         = filter (\<lambda>s. taskId s = tid \<and> status s \<noteq> Skipped) (plannedTasks (purgePlan T p))"
  proof (cases "isLocked p")
    case True
    then show ?thesis by (simp add: purgePlan_def)
  next
    case False
    then show ?thesis using T
      by (simp add: purgePlan_def) (rule filter_cong, auto simp: k)
  qed
  have b: "filter (\<lambda>s. ?A s \<and> \<not> status s \<noteq> Skipped) (plannedTasks p)
         = filter (\<lambda>s. taskId s = tid \<and> status s = Skipped) (plannedTasks p)"
    by (rule filter_cong) auto
  show ?thesis
    unfolding accountedInPlan_def planTaskHours_def planSkippedHours_def
    using sumHours_split[of ?A "plannedTasks p" "\<lambda>s. status s \<noteq> Skipped"]
    by (simp only: a b)
qed

lemma accounted_purged:
  assumes "distinctKeys P0" "tr \<in> set T" "task_id (rtask tr) = tid"
  shows "accountedHours tid P0 = taskHours tid (purgeAll T P0) + skippedHours tid P0"
proof -
  have "sum_list (map (accountedInPlan tid) P0)
      = sum_list (map (\<lambda>p. planTaskHours tid (purgePlan T p)) P0)
        + sum_list (map (planSkippedHours tid) P0)"
    by (induction P0) (simp_all add: accountedInPlan_split[OF assms(2,3)])
  then show ?thesis
    by (simp add: accounted_local[OF assms(1)] taskHours_sum skippedHours_sum purgeAll_map comp_def)
qed

subsection \<open>The sum of a distribution vector never exceeds the hours by more than 0.015\<close>

lemma sum_positive_entries:
  "\<forall>x\<in>set xs. (0::rat) \<le> x \<Longrightarrow> sum_list (filter (\<lambda>h. 0 < h) xs) = sum_list xs"
proof (induction xs)
  case Nil
  then show ?case by simp
next
  case (Cons x xs)
  then show ?case by (cases "0 < x") auto
qed

lemma thirdPart_sum_upper: "0 \<le> h \<Longrightarrow> sum_list (thirdPart h n) \<le> h + 1/200"
proof (cases "0 < n")
  case True
  assume h: "0 \<le> h"
  have "\<bar>sum_list (distributeEvenly h n) - h\<bar> \<le> 1/200"
    by (rule distributeEvenly_sum[OF h True])
  then have "sum_list (distributeEvenly h n) \<le> h + 1/200" by linarith
  then show ?thesis using True by (simp only: thirdPart_def if_True)
next
  case False
  assume h: "0 \<le> h"
  have "sum_list (thirdPart h n) = 0" using False by (simp add: thirdPart_def)
  then show ?thesis using h by linarith
qed

lemma distributeThirds_sum_upper:
  assumes "0 \<le> t" "0 < d" "0 \<le> w1" "0 \<le> w2" "0 \<le> w3" "w1 + w2 + w3 = 1"
  shows "sum_list (distributeThirds w1 w2 w3 t d) \<le> t + 3/200"
proof -
  have f: "0 < ceilDiv d 3" using assms(2) unfolding ceilDiv3 by linarith
  have "\<bar>sum_list (distributeEvenly (t * w1) (ceilDiv d 3)) - t * w1\<bar> \<le> 1/200"
    by (rule distributeEvenly_sum) (simp_all add: assms f)
  then have a: "sum_list (distributeEvenly (t * w1) (ceilDiv d 3)) \<le> t * w1 + 1/200"
    by linarith
  have b: "sum_list (thirdPart (t * w2) (ceilDiv (d * 2) 3 - ceilDiv d 3)) \<le> t * w2 + 1/200"
    by (rule thirdPart_sum_upper) (simp add: assms)
  have c: "sum_list (thirdPart (t * w3) (d - ceilDiv (d * 2) 3)) \<le> t * w3 + 1/200"
    by (rule thirdPart_sum_upper) (simp add: assms)
  have "t = t * w1 + t * w2 + t * w3"
    using assms(6) by (metis distrib_left mult.right_neutral)
  then show ?thesis using a b c by (simp add: distributeThirds_eq)
qed

lemma calc_sum_upper:
  assumes "0 \<le> t"
  shows "sum_list (calculateDailyHoursDistribution t d strat) \<le> t + 3/200"
proof (cases "d = 0")
  case True
  then show ?thesis using assms by (simp add: calculateDailyHoursDistribution_def)
next
  case False
  then have d: "0 < d" by simp
  show ?thesis
  proof (cases strat)
    case FrontLoad
    have "sum_list (distributeThirds (7/10) (2/10) (1/10) t d) \<le> t + 3/200"
      by (rule distributeThirds_sum_upper) (simp_all add: assms d)
    then show ?thesis using False FrontLoad
      by (simp add: calculateDailyHoursDistribution_def distributeFrontLoad_def)
  next
    case BackLoad
    have "sum_list (distributeThirds (1/10) (2/10) (7/10) t d) \<le> t + 3/200"
      by (rule distributeThirds_sum_upper) (simp_all add: assms d)
    then show ?thesis using False BackLoad
      by (simp add: calculateDailyHoursDistribution_def distributeBackLoad_def)
  next
    case EvenLoad
    have "\<bar>sum_list (distributeEvenly t d) - t\<bar> \<le> 1/200"
      by (rule distributeEvenly_sum[OF assms d])
    then have "sum_list (distributeEvenly t d) \<le> t + 3/200" by linarith
    then show ?thesis using False EvenLoad by (simp add: calculateDailyHoursDistribution_def)
  qed
qed

subsection \<open>The task in the list of tasks to reschedule\<close>

lemma filter_taskOrder_single:
  assumes "filter P T = [tr]"
  shows "filter P (taskOrder clk m T) = [tr]"
proof -
  have "mset (filter P (taskOrder clk m T)) = mset (filter P T)"
    by (simp add: mset_taskOrder)
  then have "mset (filter P (taskOrder clk m T)) = {#tr#}" using assms by simp
  then show ?thesis by (metis mset_single_iff_right mset.simps(1) mset.simps(2))
qed

lemma tasksWithRemaining_single:
  assumes "filter (\<lambda>t'. task_id t' = task_id t) tasks = [t]" "task_status t = Pending"
    "0 < calculateRemainingTaskHours t plans"
  shows "filter (\<lambda>t'. task_id (rtask t') = task_id t) (tasksWithRemainingHours tasks plans)
       = [\<lparr>rtask = t, remainingHours = calculateRemainingTaskHours t plans\<rparr>]"
proof -
  let ?mk = "\<lambda>t. \<lparr>rtask = t, remainingHours = calculateRemainingTaskHours t plans\<rparr>"
  have "filter (\<lambda>t'. task_id (rtask t') = task_id t) (tasksWithRemainingHours tasks plans)
      = filter (\<lambda>t'. remainingHours t' > 0)
          (map ?mk (filter (\<lambda>t'. task_status t' = Pending) (filter (\<lambda>t'. task_id t' = task_id t) tasks)))"
    unfolding tasksWithRemainingHours_def
    by (induction tasks) auto
  then show ?thesis using assms by simp
qed

section \<open>Session numbers of the sessions a pass creates\<close>

lemma sequenceFrom_0 [simp]: "sequenceFrom n 0 = []"
  by (simp add: sequenceFrom_def)

lemma sequenceFrom_Suc: "sequenceFrom n (Suc k) = n # sequenceFrom (n + 1) k"
proof -
  have "[n .. n + int (Suc k) - 1] = n # [n + 1 .. n + int (Suc k) - 1]"
    by (subst upto.simps) simp
  then show ?thesis by (simp add: sequenceFrom_def add.commute add.left_commute)
qed

lemma length_sequenceFrom [simp]: "length (sequenceFrom n k) = k"
  by (induction k arbitrary: n) (simp_all add: sequenceFrom_Suc)

lemma sequenceFrom_add:
  "sequenceFrom n (k1 + k2) = sequenceFrom n k1 @ sequenceFrom (n + int k1) k2"
proof (induction k1 arbitrary: n)
  case 0
  then show ?case by simp
next
  case (Suc k1)
  have "sequenceFrom n (Suc k1 + k2) = n # sequenceFrom (n + 1) (k1 + k2)"
    by (simp add: sequenceFrom_Suc)
  also have "\<dots> = n # (sequenceFrom (n + 1) k1 @ sequenceFrom (n + 1 + int k1) k2)"
    by (simp only: Suc.IH)
  finally show ?case by (simp add: sequenceFrom_Suc add.commute add.left_commute)
qed

lemma nth_sequenceFrom: "i < k \<Longrightarrow> sequenceFrom n k ! i = n + int i"
proof (induction k arbitrary: n i)
  case 0
  then show ?case by simp
next
  case (Suc k)
  show ?case
  proof (cases i)
    case 0
    then show ?thesis by (simp add: sequenceFrom_Suc)
  next
    case (Suc j)
    then have "j < k" using Suc.prems by simp
    from Suc.IH[OF this, of "n + 1"] show ?thesis using Suc by (simp add: sequenceFrom_Suc)
  qed
qed

lemma set_sequenceFrom: "set (sequenceFrom n k) = {x. n \<le> x \<and> x < n + int k}"
  by (auto simp: sequenceFrom_def)

text \<open>The next number of a task depends on the numbers its sessions have.\<close>

lemma getNext_positive: "1 \<le> getNextSessionNumber tid W"
  using getNext_le_iff[of tid W "getNextSessionNumber tid W"] by simp

lemma getNext_eqI:
  assumes "\<And>n. getNextSessionNumber tid W' \<le> n \<longleftrightarrow> m \<le> n"
  shows "getNextSessionNumber tid W' = m"
  using assms[of m] assms[of "getNextSessionNumber tid W'"] by simp

lemma getNext_after:
  assumes m: "mset (allSessions W') = mset (allSessions W) + mset news"
    and t: "\<forall>s\<in>set news. taskId s = tid'"
    and n: "map sessionNumber news = sequenceFrom (getNextSessionNumber tid' W) (length news)"
  shows "getNextSessionNumber tid W'
       = (if tid = tid' then getNextSessionNumber tid W + int (length news)
          else getNextSessionNumber tid W)"
proof -
  have s: "set (allSessions W') = set (allSessions W) \<union> set news"
    using m by (metis set_mset_mset set_mset_union)
  have nums: "sessionNumber ` set news
            = {x. getNextSessionNumber tid' W \<le> x
                  \<and> x < getNextSessionNumber tid' W + int (length news)}"
    using n set_sequenceFrom[of "getNextSessionNumber tid' W" "length news"]
    by (metis list.set_map)
  show ?thesis
  proof (cases "tid = tid'")
    case False
    have "getNextSessionNumber tid W' \<le> x \<longleftrightarrow> getNextSessionNumber tid W \<le> x" for x
      unfolding getNext_le_iff s using t False by auto
    then show ?thesis using False getNext_eqI by auto
  next
    case True
    let ?a = "getNextSessionNumber tid W"
    let ?k = "length news"
    have "getNextSessionNumber tid W' \<le> x \<longleftrightarrow> ?a + int ?k \<le> x" for x
    proof
      assume l: "getNextSessionNumber tid W' \<le> x"
      then have a: "?a \<le> x" unfolding getNext_le_iff s by auto
      show "?a + int ?k \<le> x"
      proof (cases "?k = 0")
        case True
        then show ?thesis using a by simp
      next
        case False
        then have "?a + int ?k - 1 \<in> sessionNumber ` set news"
          unfolding nums using True by auto
        then obtain s0 where s0: "s0 \<in> set news" "sessionNumber s0 = ?a + int ?k - 1" by auto
        have "1 \<le> ?a" by (rule getNext_positive)
        moreover have "0 < int ?k" using False by simp
        ultimately have nz: "sessionNumber s0 \<noteq> 0" using s0(2) by linarith
        have "taskId s0 = tid" using t s0(1) True by simp
        then have "sessionNumber s0 < x"
          using l s0(1) nz unfolding getNext_le_iff s by auto
        then show ?thesis using s0(2) by simp
      qed
    next
      assume r: "?a + int ?k \<le> x"
      then have a: "?a \<le> x" by simp
      have "\<forall>s0\<in>set news. sessionNumber s0 < x"
      proof
        fix s0 assume "s0 \<in> set news"
        then have "sessionNumber s0 \<in> sessionNumber ` set news" by simp
        then show "sessionNumber s0 < x" unfolding nums using r True by auto
      qed
      then show "getNextSessionNumber tid W' \<le> x"
        using a unfolding getNext_le_iff s by auto
    qed
    then show ?thesis using True getNext_eqI by auto
  qed
qed

text \<open>
  The sessions a pass adds, in the order in which it adds them: those of one call of
  \<^verbatim>\<open>scheduleTaskWithStrategy\<close> are numbered from the counter on, one by one, and lie on
  later and later days.
\<close>

lemma scheduleDay_trace:
  "scheduleDay tid st fcs dh acc = acc
   \<or> (\<exists>s. taskId s = tid \<and> sessionNumber s = snd acc \<and> fst (scheduledTime s) = fst dh
          \<and> mset (allSessions (fst (scheduleDay tid st fcs dh acc)))
              = add_mset s (mset (allSessions (fst acc)))
          \<and> snd (scheduleDay tid st fcs dh acc) = snd acc + 1)"
  using scheduleDay_cases[of tid st fcs dh acc]
proof
  assume "scheduleDay tid st fcs dh acc = acc"
  then show ?thesis by simp
next
  assume "\<exists>start fin. 0 < snd dh
        \<and> slotOnDay (snd dh) (fst dh) (fst acc) st fcs = Some (fst dh, start, fin)
        \<and> scheduleDay tid st fcs dh acc
            = (addSessionToPlan (newSession tid (fst dh) start fin (snd dh) (snd acc))
                 (fst dh) (fst acc) st, snd acc + 1)"
  then obtain start fin where
    sl: "slotOnDay (snd dh) (fst dh) (fst acc) st fcs = Some (fst dh, start, fin)"
    and e: "scheduleDay tid st fcs dh acc
            = (addSessionToPlan (newSession tid (fst dh) start fin (snd dh) (snd acc))
                 (fst dh) (fst acc) st, snd acc + 1)" by blast
  let ?s = "newSession tid (fst dh) start fin (snd dh) (snd acc)"
  have "mset (allSessions (addSessionToPlan ?s (fst dh) (fst acc) st))
      = add_mset ?s (mset (allSessions (fst acc)))"
    by (rule mset_allSessions_addSession_open) (rule slotOnDay_open[OF sl])
  then have "taskId ?s = tid \<and> sessionNumber ?s = snd acc \<and> fst (scheduledTime ?s) = fst dh
          \<and> mset (allSessions (fst (scheduleDay tid st fcs dh acc)))
              = add_mset ?s (mset (allSessions (fst acc)))
          \<and> snd (scheduleDay tid st fcs dh acc) = snd acc + 1"
    by (simp add: e newSession_def)
  then show ?thesis by blast
qed

lemma fold_scheduleDay_trace:
  assumes "sorted_wrt (<) (map fst dhs)"
  shows "\<exists>news. mset (allSessions (fst (fold (scheduleDay tid st fcs) dhs acc)))
                 = mset (allSessions (fst acc)) + mset news
          \<and> (\<forall>s\<in>set news. taskId s = tid \<and> fst (scheduledTime s) \<in> set (map fst dhs))
          \<and> map sessionNumber news = sequenceFrom (snd acc) (length news)
          \<and> sorted_wrt (<) (map (\<lambda>s. fst (scheduledTime s)) news)"
  using assms
proof (induction dhs arbitrary: acc)
  case Nil
  have "mset (allSessions (fst acc)) = mset (allSessions (fst acc)) + mset []
      \<and> (\<forall>s\<in>set []. taskId s = tid \<and> fst (scheduledTime s) \<in> set (map fst []))
      \<and> map sessionNumber [] = sequenceFrom (snd acc) (length ([] :: StudySession list))
      \<and> sorted_wrt (<) (map (\<lambda>s. fst (scheduledTime s)) ([] :: StudySession list))"
    by simp
  then show ?case by (metis fold_simps(1))
next
  case (Cons dh dhs)
  let ?acc1 = "scheduleDay tid st fcs dh acc"
  have srt: "sorted_wrt (<) (map fst dhs)" and later: "\<forall>d\<in>set (map fst dhs). fst dh < d"
    using Cons.prems by auto
  from Cons.IH[OF srt, of ?acc1] obtain news where
    m: "mset (allSessions (fst (fold (scheduleDay tid st fcs) dhs ?acc1)))
          = mset (allSessions (fst ?acc1)) + mset news"
    and t: "\<forall>s\<in>set news. taskId s = tid \<and> fst (scheduledTime s) \<in> set (map fst dhs)"
    and n: "map sessionNumber news = sequenceFrom (snd ?acc1) (length news)"
    and d: "sorted_wrt (<) (map (\<lambda>s. fst (scheduledTime s)) news)" by blast
  from scheduleDay_trace[of tid st fcs dh acc] show ?case
  proof
    assume e: "?acc1 = acc"
    have "mset (allSessions (fst (fold (scheduleDay tid st fcs) (dh # dhs) acc)))
            = mset (allSessions (fst acc)) + mset news
        \<and> (\<forall>s\<in>set news. taskId s = tid \<and> fst (scheduledTime s) \<in> set (map fst (dh # dhs)))
        \<and> map sessionNumber news = sequenceFrom (snd acc) (length news)
        \<and> sorted_wrt (<) (map (\<lambda>s. fst (scheduledTime s)) news)"
      using m t n d by (simp add: e)
    then show ?thesis by blast
  next
    assume "\<exists>s. taskId s = tid \<and> sessionNumber s = snd acc \<and> fst (scheduledTime s) = fst dh
          \<and> mset (allSessions (fst ?acc1)) = add_mset s (mset (allSessions (fst acc)))
          \<and> snd ?acc1 = snd acc + 1"
    then obtain s where s: "taskId s = tid" "sessionNumber s = snd acc"
      "fst (scheduledTime s) = fst dh"
      "mset (allSessions (fst ?acc1)) = add_mset s (mset (allSessions (fst acc)))"
      "snd ?acc1 = snd acc + 1" by blast
    have a: "mset (allSessions (fst (fold (scheduleDay tid st fcs) (dh # dhs) acc)))
            = mset (allSessions (fst acc)) + mset (s # news)"
      using m s(4) by simp
    have b: "\<forall>x\<in>set (s # news). taskId x = tid \<and> fst (scheduledTime x) \<in> set (map fst (dh # dhs))"
      using t s(1,3) by auto
    have c: "map sessionNumber (s # news) = sequenceFrom (snd acc) (length (s # news))"
      using n s(2,5) by (simp add: sequenceFrom_Suc)
    have "fst dh < fst (scheduledTime x)" if "x \<in> set news" for x
    proof -
      have "fst (scheduledTime x) \<in> set (map fst dhs)" using t that by blast
      then show ?thesis using later by blast
    qed
    then have e: "sorted_wrt (<) (map (\<lambda>s. fst (scheduledTime s)) (s # news))"
      using d s(3) by simp
    show ?thesis using a b c e by blast
  qed
qed

lemma sorted_availableDays: "sorted_wrt (<) (getAvailableDaysForTask clk t W st)"
proof -
  have "sorted_wrt (<) [a..b]" for a b :: int
    by (simp add: sorted_wrt_iff_nth_less)
  then show ?thesis
    unfolding getAvailableDaysForTask_def by (rule sorted_wrt_filter)
qed

lemma scheduleTask_trace:
  "\<exists>news. mset (allSessions (scheduleTaskWithStrategy clk st fcs t strat W))
                 = mset (allSessions W) + mset news
          \<and> (\<forall>s\<in>set news. taskId s = task_id (rtask t))
          \<and> map sessionNumber news
              = sequenceFrom (getNextSessionNumber (task_id (rtask t)) W) (length news)
          \<and> sorted_wrt (<) (map (\<lambda>s. fst (scheduledTime s)) news)"
proof -
  let ?tid = "task_id (rtask t)"
  let ?days = "getAvailableDaysForTask clk (rtask t) W st"
  let ?dv = "calculateDailyHoursDistribution (remainingHours t) (length ?days) strat"
  have none: "\<exists>news. mset (allSessions W) = mset (allSessions W) + mset news
          \<and> (\<forall>s\<in>set news. taskId s = ?tid)
          \<and> map sessionNumber news = sequenceFrom (getNextSessionNumber ?tid W) (length news)
          \<and> sorted_wrt (<) (map (\<lambda>s. fst (scheduledTime s)) news)"
    by (rule exI[of _ "[]"]) simp
  have "sorted_wrt (<) (map fst (zip ?days ?dv))"
    using sorted_availableDays[of clk "rtask t" W st]
    by (simp only: map_fst_zip_take sorted_wrt_take)
  from fold_scheduleDay_trace[OF this, of ?tid st fcs "(W, getNextSessionNumber ?tid W)"]
  have some: "\<exists>news. mset (allSessions (fst (fold (scheduleDay ?tid st fcs) (zip ?days ?dv)
                        (W, getNextSessionNumber ?tid W))))
                 = mset (allSessions W) + mset news
          \<and> (\<forall>s\<in>set news. taskId s = ?tid)
          \<and> map sessionNumber news = sequenceFrom (getNextSessionNumber ?tid W) (length news)
          \<and> sorted_wrt (<) (map (\<lambda>s. fst (scheduledTime s)) news)"
    by auto
  show ?thesis
    using none some by (simp add: scheduleTaskWithStrategy_def Let_def)
qed

lemma scheduleAll_trace:
  "\<exists>news. mset (allSessions (scheduleAll clk st fcs strat ts W)) = mset (allSessions W) + mset news
      \<and> (\<forall>s\<in>set news. taskId s \<in> set (map (\<lambda>t. task_id (rtask t)) ts))
      \<and> (\<forall>tid. map sessionNumber (filter (\<lambda>s. taskId s = tid) news)
                 = sequenceFrom (getNextSessionNumber tid W)
                     (length (filter (\<lambda>s. taskId s = tid) news)))
      \<and> (\<forall>tid. length (filter (\<lambda>t. task_id (rtask t) = tid) ts) \<le> 1
            \<longrightarrow> sorted_wrt (<) (map (\<lambda>s. fst (scheduledTime s)) (filter (\<lambda>s. taskId s = tid) news)))"
proof (induction ts arbitrary: W)
  case Nil
  show ?case by (rule exI[of _ "[]"]) (simp add: scheduleAll_def)
next
  case (Cons t ts)
  let ?tid = "task_id (rtask t)"
  let ?W1 = "scheduleTaskWithStrategy clk st fcs t (strat t) W"
  from scheduleTask_trace[of clk st fcs t "strat t" W] obtain n1 where
    m1: "mset (allSessions ?W1) = mset (allSessions W) + mset n1"
    and t1: "\<forall>s\<in>set n1. taskId s = ?tid"
    and s1: "map sessionNumber n1 = sequenceFrom (getNextSessionNumber ?tid W) (length n1)"
    and d1: "sorted_wrt (<) (map (\<lambda>s. fst (scheduledTime s)) n1)" by blast
  from Cons.IH[of ?W1] obtain n2 where
    m2: "mset (allSessions (scheduleAll clk st fcs strat ts ?W1)) = mset (allSessions ?W1) + mset n2"
    and t2: "\<forall>s\<in>set n2. taskId s \<in> set (map (\<lambda>t. task_id (rtask t)) ts)"
    and s2: "\<And>tid. map sessionNumber (filter (\<lambda>s. taskId s = tid) n2)
                 = sequenceFrom (getNextSessionNumber tid ?W1)
                     (length (filter (\<lambda>s. taskId s = tid) n2))"
    and d2: "\<And>tid. length (filter (\<lambda>t. task_id (rtask t) = tid) ts) \<le> 1
            \<Longrightarrow> sorted_wrt (<) (map (\<lambda>s. fst (scheduledTime s)) (filter (\<lambda>s. taskId s = tid) n2))"
    by blast
  have e: "scheduleAll clk st fcs strat (t # ts) W = scheduleAll clk st fcs strat ts ?W1"
    by (simp add: scheduleAll_def)
  have own: "filter (\<lambda>s. taskId s = ?tid) n1 = n1" using t1 by (simp add: filter_id_conv)
  have other: "tid \<noteq> ?tid \<Longrightarrow> filter (\<lambda>s. taskId s = tid) n1 = []" for tid
    using t1 by (auto simp: filter_empty_conv)
  have g: "getNextSessionNumber tid ?W1
         = (if tid = ?tid then getNextSessionNumber tid W + int (length n1)
            else getNextSessionNumber tid W)" for tid
    by (rule getNext_after[OF m1 t1 s1])
  have a: "mset (allSessions (scheduleAll clk st fcs strat (t # ts) W))
         = mset (allSessions W) + mset (n1 @ n2)"
    using m1 m2 by (simp add: e)
  have b: "\<forall>s\<in>set (n1 @ n2). taskId s \<in> set (map (\<lambda>t. task_id (rtask t)) (t # ts))"
    using t1 t2 by auto
  have c: "map sessionNumber (filter (\<lambda>s. taskId s = tid) (n1 @ n2))
         = sequenceFrom (getNextSessionNumber tid W)
             (length (filter (\<lambda>s. taskId s = tid) (n1 @ n2)))" for tid
  proof (cases "tid = ?tid")
    case True
    have "map sessionNumber (filter (\<lambda>s. taskId s = tid) (n1 @ n2))
        = sequenceFrom (getNextSessionNumber tid W) (length n1)
          @ sequenceFrom (getNextSessionNumber tid W + int (length n1))
              (length (filter (\<lambda>s. taskId s = tid) n2))"
      using s1 s2[of tid] own g[of tid] True by simp
    then show ?thesis using own True by (simp add: sequenceFrom_add)
  next
    case False
    then show ?thesis using s2[of tid] other[OF False] g[of tid] by simp
  qed
  have d: "sorted_wrt (<) (map (\<lambda>s. fst (scheduledTime s)) (filter (\<lambda>s. taskId s = tid) (n1 @ n2)))"
    if once: "length (filter (\<lambda>t. task_id (rtask t) = tid) (t # ts)) \<le> 1" for tid
  proof (cases "tid = ?tid")
    case True
    then have "filter (\<lambda>t. task_id (rtask t) = tid) ts = []" using once by simp
    then have "tid \<notin> set (map (\<lambda>t. task_id (rtask t)) ts)"
      by (auto simp: filter_empty_conv)
    then have "filter (\<lambda>s. taskId s = tid) n2 = []"
      using t2 by (auto simp: filter_empty_conv)
    then show ?thesis using own d1 True by simp
  next
    case False
    then have "length (filter (\<lambda>t. task_id (rtask t) = tid) ts) \<le> 1" using once by simp
    from d2[OF this] show ?thesis using other[OF False] by simp
  qed
  show ?case using a b c d by blast
qed

lemma count_tasksWithRemaining:
  "length (filter (\<lambda>t'. task_id (rtask t') = tid) (tasksWithRemainingHours tasks plans))
   \<le> length (filter (\<lambda>t. task_id t = tid) tasks)"
  unfolding tasksWithRemainingHours_def
  by (induction tasks) auto

lemma count_taskOrder:
  "length (filter Q (taskOrder clk m ts)) = length (filter Q ts)"
proof -
  have "mset (filter Q (taskOrder clk m ts)) = mset (filter Q ts)"
    by (simp add: mset_taskOrder)
  then show ?thesis by (metis size_mset)
qed

lemma generate_trace:
  "\<exists>news. mset (allSessions (generateNewStudyPlan clk tasks st fcs plans))
             = mset (allSessions (purgedPlans tasks plans)) + mset news
      \<and> (\<forall>tid. map sessionNumber (filter (\<lambda>s. taskId s = tid) news)
                 = sequenceFrom (getNextSessionNumber tid (purgedPlans tasks plans))
                     (length (filter (\<lambda>s. taskId s = tid) news)))
      \<and> (\<forall>tid. length (filter (\<lambda>t. task_id t = tid) tasks) \<le> 1
            \<longrightarrow> sorted_wrt (<) (map (\<lambda>s. fst (scheduledTime s)) (filter (\<lambda>s. taskId s = tid) news)))"
proof (cases "tasksWithRemainingHours tasks plans = []")
  case True
  have "generateNewStudyPlan clk tasks st fcs plans = purgedPlans tasks plans"
    using True by (simp add: generate_unfold purgedPlans_def purgeAll_def)
  then show ?thesis by (intro exI[of _ "[]"]) simp
next
  case False
  let ?T = "tasksWithRemainingHours tasks plans"
  let ?ts = "taskOrder clk (studyPlanMode st) ?T"
  have e: "generateNewStudyPlan clk tasks st fcs plans
         = scheduleAll clk st fcs (taskStrategy clk (studyPlanMode st)) ?ts (purgedPlans tasks plans)"
    using False by (simp add: generate_unfold purgedPlans_def)
  have c: "length (filter (\<lambda>t. task_id t = tid) tasks) \<le> 1
           \<Longrightarrow> length (filter (\<lambda>t. task_id (rtask t) = tid) ?ts) \<le> 1" for tid
    using count_tasksWithRemaining[of tid tasks plans]
      count_taskOrder[of "\<lambda>t. task_id (rtask t) = tid" clk "studyPlanMode st" ?T]
    by linarith
  from scheduleAll_trace[of clk st fcs "taskStrategy clk (studyPlanMode st)" ?ts
      "purgedPlans tasks plans"]
  show ?thesis unfolding e using c by blast
qed

lemma numberedInSequence_generate:
  "numberedInSequence (purgedPlans tasks plans) (generateNewStudyPlan clk tasks st fcs plans) tid"
proof -
  let ?P = "purgedPlans tasks plans"
  let ?G = "generateNewStudyPlan clk tasks st fcs plans"
  from generate_trace[of clk tasks st fcs plans] obtain news where
    m: "mset (allSessions ?G) = mset (allSessions ?P) + mset news"
    and s: "map sessionNumber (filter (\<lambda>s. taskId s = tid) news)
                 = sequenceFrom (getNextSessionNumber tid ?P)
                     (length (filter (\<lambda>s. taskId s = tid) news))"
    by blast
  let ?L = "filter (\<lambda>s. taskId s = tid) news"
  have "mset (filter (\<lambda>s. taskId s = tid) (allSessions ?G))
      = mset (filter (\<lambda>s. taskId s = tid) (allSessions ?P)) + mset ?L"
    using m by (simp add: mset_filter)
  then have t: "mset (taskSessions tid ?G) = mset (taskSessions tid ?P @ ?L)"
    by (simp add: taskSessions_filter)
  then have "length (taskSessions tid ?G) = length (taskSessions tid ?P @ ?L)"
    by (metis size_mset)
  then have c: "taskCount tid ?G = taskCount tid ?P + length ?L"
    by (simp add: taskCount_def)
  have "mset (map sessionNumber (taskSessions tid ?G))
      = mset (map sessionNumber (taskSessions tid ?P @ ?L))"
    using t by (metis mset_map)
  then have n: "mset (sessionNumbers tid ?G)
      = mset (sessionNumbers tid ?P @ sequenceFrom (getNextSessionNumber tid ?P) (length ?L))"
    using s by (simp add: sessionNumbers_def)
  have "sort (sessionNumbers tid ?G)
      = sort (sessionNumbers tid ?P @ sequenceFrom (getNextSessionNumber tid ?P) (length ?L))"
    by (rule properties_for_sort) (simp_all add: n)
  then show ?thesis using c by (simp add: numberedInSequence_def)
qed

lemma increasing_in_trace:
  assumes d: "sorted_wrt (<) (map day L)"
    and n: "map num L = sequenceFrom n0 (length L)"
    and s: "s \<in> set L" "s' \<in> set L" "day s < (day s' :: int)"
  shows "num s < num s'"
proof -
  from s obtain i j where i: "i < length L" "L ! i = s" and j: "j < length L" "L ! j = s'"
    by (metis in_set_conv_nth)
  have "i < j"
  proof (rule ccontr)
    assume "\<not> i < j"
    then have "j = i \<or> j < i" by auto
    then show False
    proof
      assume "j = i" then show False using i j s(3) by simp
    next
      assume "j < i"
      have "map day L ! j < map day L ! i"
        by (rule sorted_wrt_nth_less[OF d \<open>j < i\<close>]) (simp add: i(1))
      then show False using i j s(3) by simp
    qed
  qed
  moreover have "num (L ! k) = n0 + int k" if "k < length L" for k
  proof -
    have "map num L ! k = sequenceFrom n0 (length L) ! k" by (simp only: n)
    then show ?thesis using that by (simp add: nth_sequenceFrom)
  qed
  ultimately show ?thesis using i j by auto
qed

lemma laterDayLaterNumber_generate:
  assumes "length (filter (\<lambda>t. task_id t = tid) tasks) \<le> 1"
  shows "laterDayLaterNumber (purgedPlans tasks plans)
           (generateNewStudyPlan clk tasks st fcs plans) tid"
proof -
  let ?P = "purgedPlans tasks plans"
  let ?G = "generateNewStudyPlan clk tasks st fcs plans"
  from generate_trace[of clk tasks st fcs plans] assms obtain news where
    m: "mset (allSessions ?G) = mset (allSessions ?P) + mset news"
    and s: "map sessionNumber (filter (\<lambda>s. taskId s = tid) news)
                 = sequenceFrom (getNextSessionNumber tid ?P)
                     (length (filter (\<lambda>s. taskId s = tid) news))"
    and d: "sorted_wrt (<) (map (\<lambda>s. fst (scheduledTime s)) (filter (\<lambda>s. taskId s = tid) news))"
    by blast
  have set: "set (allSessions ?G) = set (allSessions ?P) \<union> set news"
    using m by (metis set_mset_mset set_mset_union)
  have "sessionNumber x < sessionNumber y"
    if "x \<in> set (createdSessions ?P ?G)" "y \<in> set (createdSessions ?P ?G)"
      "taskId x = tid" "taskId y = tid" "fst (scheduledTime x) < fst (scheduledTime y)" for x y
  proof -
    have "x \<in> set (filter (\<lambda>s. taskId s = tid) news)" "y \<in> set (filter (\<lambda>s. taskId s = tid) news)"
      using that set by (auto simp: createdSessions_def)
    from increasing_in_trace[OF d s this that(5)] show ?thesis .
  qed
  then show ?thesis unfolding laterDayLaterNumber_def by blast
qed

section \<open>The engine on the store\<close>

subsection \<open>What a write does to the collection read through the array\<close>













subsection \<open>The generator\<close>











subsection \<open>The deep copy\<close>





subsection \<open>The redistribution of missed sessions\<close>




subsection \<open>The eviction from locked days\<close>




subsection \<open>The merge, which copies the array only\<close>



subsection \<open>Eviction from locked days: the plans that receive sessions\<close>













section \<open>Claims about the distribution strategies\<close>

text \<open>
  Claim C3, as amended. For every \<open>totalHours \<ge> 0\<close>, every \<open>dayCount \<ge> 1\<close> and each
  of the three strategies, \<^verbatim>\<open>calculateDailyHoursDistribution\<close> returns a vector of
  length \<open>dayCount\<close> with no negative entry. With the even strategy its entries sum to
  \<open>totalHours\<close> within 0.01 hours. With any strategy and at least three days they sum
  to \<open>totalHours\<close> within 0.015 hours: each third is rounded to hundredths on its own.
  (What front-load and back-load give on one or two days is not stated here.)
\<close>

theorem distribution_vector_amended:
  assumes "0 \<le> totalHours" "1 \<le> dayCount"
  shows "length (calculateDailyHoursDistribution totalHours dayCount strat) = dayCount
       \<and> (\<forall>x\<in>set (calculateDailyHoursDistribution totalHours dayCount strat). 0 \<le> x)
       \<and> (strat = EvenLoad \<longrightarrow>
            \<bar>sum_list (calculateDailyHoursDistribution totalHours dayCount strat) - totalHours\<bar>
              \<le> 1/100)
       \<and> (3 \<le> dayCount \<longrightarrow>
            \<bar>sum_list (calculateDailyHoursDistribution totalHours dayCount strat) - totalHours\<bar>
              \<le> 3/200)"
proof (intro conjI impI)
  show "length (calculateDailyHoursDistribution totalHours dayCount strat) = dayCount"
    by (rule calc_length)
  show "\<forall>x\<in>set (calculateDailyHoursDistribution totalHours dayCount strat). 0 \<le> x"
    by (rule calc_nonneg) (rule assms)
next
  assume "strat = EvenLoad"
  moreover have "0 < dayCount" using assms by simp
  ultimately show "\<bar>sum_list (calculateDailyHoursDistribution totalHours dayCount strat) - totalHours\<bar> \<le> 1/100"
    using calc_sum_even[OF assms(1), of dayCount] by simp
next
  assume "3 \<le> dayCount"
  then show "\<bar>sum_list (calculateDailyHoursDistribution totalHours dayCount strat) - totalHours\<bar> \<le> 3/200"
    by (rule calc_sum_any[OF assms(1)])
qed

text \<open>The amended claim at 10 hours over 3 days, front-loaded.\<close>

theorem distribution_vector_witness:
  "length (calculateDailyHoursDistribution 10 3 FrontLoad) = 3
   \<and> list_all (\<lambda>x. 0 \<le> x) (calculateDailyHoursDistribution 10 3 FrontLoad)
   \<and> \<bar>sum_list (calculateDailyHoursDistribution 10 3 FrontLoad) - 10\<bar> \<le> 3/200"
  using distribution_vector_amended[of 10 3 FrontLoad]
  by (simp add: list_all_iff)

text \<open>
  The claim as stated fails. Front-loading 10.0214 hours over 3 days gives
  \<open>[7.01, 2, 1]\<close>, which is 0.0114 short. Front-loading 10 hours on a single day gives
  \<open>[7]\<close>, and back-loading 10 hours over two days gives \<open>[1, 2]\<close>: the share of a third
  that has no day is dropped.
\<close>

theorem distribution_vector_counterexample:
  "\<not> \<bar>sum_list (calculateDailyHoursDistribution (50107/5000) 3 FrontLoad) - 50107/5000\<bar> \<le> 1/100
   \<and> \<not> \<bar>sum_list (calculateDailyHoursDistribution 10 1 FrontLoad) - 10\<bar> \<le> 1/100
   \<and> \<not> \<bar>sum_list (calculateDailyHoursDistribution 10 2 BackLoad) - 10\<bar> \<le> 1/100"
  by code_simp

section \<open>Lock governance: when a day may be locked\<close>

lemma canLockDay_None: "planForDate d plans = None \<Longrightarrow> canLockDay d plans = \<lparr>canLock = True, pendingSessions = None\<rparr>"
  by (simp add: canLockDay_def)

lemma isPendingSession_iff:
  "isPendingSession s \<longleftrightarrow> \<not> (done_flag s \<or> status s \<in> {Completed, Skipped, Missed})"
  by (auto simp: isPendingSession_def)

text \<open>
  Claim C9. \<^verbatim>\<open>canLockDay(date, plans)\<close> answers \<open>canLock = true\<close> exactly when the plan
  found for the date (if there is one) has no session that is neither done nor of status
  completed, skipped or missed; when it answers false, it reports the number of those
  pending sessions.
\<close>

theorem canLockDay_iff:
  "(canLock (canLockDay d plans) \<longleftrightarrow>
      (\<forall>p. planForDate d plans = Some p \<longrightarrow>
           (\<forall>s\<in>set (plannedTasks p). done_flag s \<or> status s \<in> {Completed, Skipped, Missed})))
   \<and> (\<not> canLock (canLockDay d plans) \<longrightarrow>
        (\<exists>p. planForDate d plans = Some p
           \<and> pendingSessions (canLockDay d plans)
               = Some (length (filter (\<lambda>s. \<not> (done_flag s \<or> status s \<in> {Completed, Skipped, Missed}))
                                 (plannedTasks p)))))"
proof (cases "planForDate d plans")
  case None
  then show ?thesis by (simp add: canLockDay_def)
next
  case (Some p)
  have f: "filter isPendingSession (plannedTasks p)
         = filter (\<lambda>s. \<not> (done_flag s \<or> status s \<in> {Completed, Skipped, Missed})) (plannedTasks p)"
    by (rule filter_cong) (simp_all add: isPendingSession_iff)
  show ?thesis
  proof (cases "filter isPendingSession (plannedTasks p) = []")
    case True
    then have "\<forall>s\<in>set (plannedTasks p). \<not> isPendingSession s"
      by (simp add: filter_empty_conv)
    then have "\<forall>s\<in>set (plannedTasks p). done_flag s \<or> status s \<in> {Completed, Skipped, Missed}"
      by (simp add: isPendingSession_iff)
    then show ?thesis using Some True by (simp add: canLockDay_def Let_def)
  next
    case False
    then obtain s where "s \<in> set (plannedTasks p)" "isPendingSession s"
      by (auto simp: filter_empty_conv)
    then have "\<not> (\<forall>s\<in>set (plannedTasks p). done_flag s \<or> status s \<in> {Completed, Skipped, Missed})"
      using isPendingSession_iff by blast
    then show ?thesis using Some False f by (simp add: canLockDay_def Let_def)
  qed
qed

text \<open>
  Scenario D of the specification: a day that holds only completed and skipped sessions
  can be locked; a day with one pending session cannot, and one pending session is
  reported.
\<close>

theorem canLockDay_witness:
  "canLock (canLockDay 5 [plan 5 False [sess ''A'' 1 540 1 Completed False, sess ''A'' 2 600 1 Skipped False]])
   \<and> \<not> canLock (canLockDay 5 [plan 5 False [sess ''A'' 1 540 1 Scheduled False]])
   \<and> pendingSessions (canLockDay 5 [plan 5 False [sess ''A'' 1 540 1 Scheduled False]]) = Some 1"
  using canLockDay_iff[of 5 "[plan 5 False [sess ''A'' 1 540 1 Completed False, sess ''A'' 2 600 1 Skipped False]]"]
    canLockDay_iff[of 5 "[plan 5 False [sess ''A'' 1 540 1 Scheduled False]]"]
  by (simp add: planForDate_def plan_def sess_def)

section \<open>Priority of missed sessions\<close>

lemma missedPriority_eq:
  "missedPriority clk t =
     (if importance t then 1000 else 0)
     + max 0 (100 - max 0 ((of_int (deadline t - now clk) :: rat) / of_int msPerDay))"
  by (simp add: missedPriority_def Let_def)

lemma missedPriority_past:
  "deadline t < now clk \<Longrightarrow> missedPriority clk t = (if importance t then 1100 else 100)"
proof -
  assume "deadline t < now clk"
  then have "(of_int (deadline t - now clk) :: rat) / of_int msPerDay \<le> 0"
    by (simp add: msPerDay_def divide_le_0_iff)
  then have "max 0 ((of_int (deadline t - now clk) :: rat) / of_int msPerDay) = 0"
    by (simp add: max_def)
  then show ?thesis unfolding missedPriority_eq by simp
qed

text \<open>
  Claim C5 says that a missed session of a task whose deadline has passed gets 2000 on
  top of the importance score. The code clamps the days until the deadline at 0 before
  it tests them for being negative, so the branch that adds 2000 is never taken: a task
  that is not important and whose deadline passed ten days ago scores 100.
\<close>

theorem missedPriority_past_deadline_value:
  "missedPriority exClock (mkTask ''A'' 5 10 False) = 100
   \<and> missedPriority exClock (mkTask ''A'' 5 10 False) \<noteq> 2000"
  by (simp add: missedPriority_eq mkTask_def exClock_def msPerDay_def)

section \<open>The success flag of missed-session redistribution\<close>

lemma fold_moveMissed_lengths:
  "length (ms_moved (fold (moveMissed clk st fcs) ms acc))
   + length (ms_failed (fold (moveMissed clk st fcs) ms acc))
   = length (ms_moved acc) + length (ms_failed acc) + length ms"
proof (induction ms arbitrary: acc)
  case Nil
  then show ?case by simp
next
  case (Cons m ms)
  have "length (ms_moved (moveMissed clk st fcs m acc)) + length (ms_failed (moveMissed clk st fcs m acc))
      = length (ms_moved acc) + length (ms_failed acc) + 1"
    by (simp add: moveMissed_def Let_def split: option.splits prod.splits)
  then show ?case using Cons.IH[of "moveMissed clk st fcs m acc"] by simp
qed

text \<open>
  Claim C10. \<^verbatim>\<open>redistributeMissedSessionsWithFeedback\<close> reports success exactly when
  at least one session was moved or no missed session was collected. Every collected
  session ends either moved or failed, so the call reports success when only some
  sessions fail, and no success when all of them fail.
\<close>

theorem success_flag_meaning:
  "success (feedback (redistributeMissedSessionsWithFeedback clk plans st fcs tasks))
     = (movedSessions (redistributeMissedSessionsWithFeedback clk plans st fcs tasks) \<noteq> []
        \<or> collectMissed clk tasks plans = [])
   \<and> length (movedSessions (redistributeMissedSessionsWithFeedback clk plans st fcs tasks))
     + length (failedSessions (redistributeMissedSessionsWithFeedback clk plans st fcs tasks))
     = length (collectMissed clk tasks plans)"
proof (cases "collectMissed clk tasks plans = []")
  case True
  then show ?thesis by (simp add: redistributeMissedSessionsWithFeedback_def)
next
  case False
  have "length (sortByPriority (collectMissed clk tasks plans)) = length (collectMissed clk tasks plans)"
    by (simp add: sortByPriority_def)
  then show ?thesis
    using False fold_moveMissed_lengths[of clk st fcs "sortByPriority (collectMissed clk tasks plans)"
        "\<lparr>ms_plans = plans, ms_moved = [], ms_failed = []\<rparr>"]
    by (simp add: redistributeMissedSessionsWithFeedback_def Let_def)
qed


text \<open>
  Two missed sessions, of which the nine-hour one fits no day: one is moved, one fails,
  and the call reports success. With the nine-hour session alone it reports failure.
\<close>

theorem success_flag_witness:
  "success (feedback (redistributeMissedSessionsWithFeedback exClock
      [plan 19 False [sess ''A'' 1 540 1 Scheduled False, sess ''B'' 1 540 9 Scheduled False]]
      (exSettings ModeEven) [] [mkTask ''A'' 5 25 False, mkTask ''B'' 9 25 False]))
   \<and> length (failedSessions (redistributeMissedSessionsWithFeedback exClock
      [plan 19 False [sess ''A'' 1 540 1 Scheduled False, sess ''B'' 1 540 9 Scheduled False]]
      (exSettings ModeEven) [] [mkTask ''A'' 5 25 False, mkTask ''B'' 9 25 False])) = 1
   \<and> \<not> success (feedback (redistributeMissedSessionsWithFeedback exClock
      [plan 19 False [sess ''B'' 1 540 9 Scheduled False]]
      (exSettings ModeEven) [] [mkTask ''B'' 9 25 False]))"
proof -
  let ?P1 = "[plan 19 False [sess ''A'' 1 540 1 Scheduled False, sess ''B'' 1 540 9 Scheduled False]]"
  let ?T1 = "[mkTask ''A'' 5 25 False, mkTask ''B'' 9 25 False]"
  let ?P2 = "[plan 19 False [sess ''B'' 1 540 9 Scheduled False]]"
  let ?T2 = "[mkTask ''B'' 9 25 False]"
  have m1: "length (movedSessions (redistributeMissedSessionsWithFeedback exClock ?P1
              (exSettings ModeEven) [] ?T1)) = 1"
    by code_simp
  have c1: "length (collectMissed exClock ?T1 ?P1) = 2"
    by code_simp
  have m2: "movedSessions (redistributeMissedSessionsWithFeedback exClock ?P2
              (exSettings ModeEven) [] ?T2) = []"
    by code_simp
  have c2: "collectMissed exClock ?T2 ?P2 \<noteq> []"
    by code_simp
  from m1 have n1: "movedSessions (redistributeMissedSessionsWithFeedback exClock ?P1
              (exSettings ModeEven) [] ?T1) \<noteq> []"
    by auto
  show ?thesis
    using success_flag_meaning[of exClock ?P1 "exSettings ModeEven" "[]" ?T1]
      success_flag_meaning[of exClock ?P2 "exSettings ModeEven" "[]" ?T2]
      m1 n1 c1 m2 c2
    by simp
qed

section \<open>Locked days\<close>











text \<open>
  Claim C8, as amended. A generation pass keeps every session of its working collection
  after the purge (done, completed and skipped sessions, sessions of tasks that are not
  rescheduled, sessions on locked days). For each task it numbers the sessions it
  creates from \<^verbatim>\<open>getNextSessionNumber\<close> of that collection on, one by one: the next
  number, the one after it, and so on, each number once. So every session it creates is
  numbered above every kept session of its task and has a number of its own; and, for a
  task that is listed once, a session it creates on a later day has a greater number.
  The numbers of the sessions the pass purged are not protected and may be assigned
  again. Missed-session redistribution assigns no number: every session of its result
  has the task and number of a session of its input.
\<close>

theorem session_numbers_amended:
  "(\<forall>s\<in>set (allSessions (generateNewStudyPlan clk tasks st fcs plans)).
       s \<in> set (allSessions (purgedPlans tasks plans)) \<or> numberedAbove (purgedPlans tasks plans) s)
   \<and> set (allSessions (purgedPlans tasks plans))
       \<subseteq> set (allSessions (generateNewStudyPlan clk tasks st fcs plans))
   \<and> numberedInSequence (purgedPlans tasks plans) (generateNewStudyPlan clk tasks st fcs plans) tid
   \<and> (length (filter (\<lambda>t. task_id t = tid) tasks) \<le> 1
        \<longrightarrow> laterDayLaterNumber (purgedPlans tasks plans)
              (generateNewStudyPlan clk tasks st fcs plans) tid)
   \<and> (\<forall>s\<in>set (allSessions (updatedPlans (redistributeMissedSessionsWithFeedback clk plans st fcs tasks))).
       keyKnown plans s)"
  using keepsAndNumbers_generate[of tasks plans clk st fcs] keyKnown_redistributeMissed[of clk plans st fcs tasks]
    numberedInSequence_generate[of tasks plans clk st fcs tid]
    laterDayLaterNumber_generate[of tid tasks plans clk st fcs]
  unfolding keepsAndNumbers_def by blast

text \<open>
  Scenario A: the pass keeps session 1 on the locked day 20 and numbers the four
  sessions it creates 2, 3, 4 and 5, on the days 21, 22, 23 and 24.
\<close>

theorem session_numbers_witness:
  "sessionNumbers ''A'' (purgedPlans [mkTask ''A'' 5 24 True] scenarioA) = [1]
   \<and> getNextSessionNumber ''A'' (purgedPlans [mkTask ''A'' 5 24 True] scenarioA) = 2
   \<and> sort (sessionNumbers ''A'' (generateNewStudyPlan exClock [mkTask ''A'' 5 24 True]
             (exSettings ModeEven) [] scenarioA)) = [1, 2, 3, 4, 5]
   \<and> map (\<lambda>s. (fst (scheduledTime s), sessionNumber s))
       (createdSessions (purgedPlans [mkTask ''A'' 5 24 True] scenarioA)
          (generateNewStudyPlan exClock [mkTask ''A'' 5 24 True] (exSettings ModeEven) [] scenarioA))
      = [(21, 2), (22, 3), (23, 4), (24, 5)]
   \<and> laterDayLaterNumber (purgedPlans [mkTask ''A'' 5 24 True] scenarioA)
       (generateNewStudyPlan exClock [mkTask ''A'' 5 24 True] (exSettings ModeEven) [] scenarioA) ''A''"
proof -
  let ?tasks = "[mkTask ''A'' 5 24 True]"
  let ?G = "generateNewStudyPlan exClock ?tasks (exSettings ModeEven) [] scenarioA"
  let ?P = "purgedPlans ?tasks scenarioA"
  note th = session_numbers_amended[of exClock ?tasks "exSettings ModeEven" "[]" scenarioA "''A''"]
  have once: "length (filter (\<lambda>t. task_id t = ''A'') ?tasks) \<le> 1" by code_simp
  have p: "sessionNumbers ''A'' ?P = [1]" by code_simp
  have g: "getNextSessionNumber ''A'' ?P = 2" by code_simp
  have c: "taskCount ''A'' ?G - taskCount ''A'' ?P = 4" by code_simp
  have q: "sort ([1] @ sequenceFrom 2 4) = [1, 2, 3, 4, 5]" by code_simp
  have cr: "map (\<lambda>s. (fst (scheduledTime s), sessionNumber s)) (createdSessions ?P ?G)
      = [(21, 2), (22, 3), (23, 4), (24, 5)]" by code_simp
  have "numberedInSequence ?P ?G ''A''" using th by blast
  then have "sort (sessionNumbers ''A'' ?G) = sort ([1] @ sequenceFrom 2 4)"
    unfolding numberedInSequence_def by (simp only: p g c)
  then have n: "sort (sessionNumbers ''A'' ?G) = [1, 2, 3, 4, 5]" by (simp only: q)
  have l: "laterDayLaterNumber ?P ?G ''A''" using th once by blast
  show ?thesis using p g n cr l by blast
qed

text \<open>
  The claim as stated fails. A first generation pass numbers the five sessions of task A
  1 to 5. A second pass on its result purges all five and numbers the five sessions it
  creates 1 to 5 again. And the session a redistribution pass creates for a missed
  session 1 is again session 1.
\<close>

theorem session_numbers_counterexample:
  "map sessionNumber (allSessions (generateNewStudyPlan exClock [mkTask ''A'' 5 24 True]
      (exSettings ModeEven) [] [])) = [1, 2, 3, 4, 5]
   \<and> allSessions (purgedPlans [mkTask ''A'' 5 24 True]
        (generateNewStudyPlan exClock [mkTask ''A'' 5 24 True] (exSettings ModeEven) [] [])) = []
   \<and> map sessionNumber (allSessions (generateNewStudyPlan exClock [mkTask ''A'' 5 24 True]
        (exSettings ModeEven) []
        (generateNewStudyPlan exClock [mkTask ''A'' 5 24 True] (exSettings ModeEven) [] [])))
      = [1, 2, 3, 4, 5]
   \<and> map sessionNumber (movedSessions (redistributeMissedSessionsWithFeedback exClock
        [plan 19 False [sess ''A'' 1 540 1 Scheduled False]]
        (exSettings ModeEven) [] [mkTask ''A'' 5 25 False])) = [1]"
  by code_simp




subsection \<open>Conservation of a task's hours\<close>

text \<open>
  Claim C2, as amended. Let the plan collection hold no two sessions with the same task
  and session number, and let \<open>t\<close> be a pending task, the only one of its id in the task
  list, with hours remaining. In the collection returned by \<^verbatim>\<open>generateNewStudyPlan\<close> the
  hours of the sessions of \<open>t\<close> that are not skipped are at most the estimated hours of
  \<open>t\<close> less the hours of its skipped sessions in the input, plus 0.015 hours of rounding.
  They are within 0.015 hours of that value when every positive entry of the distribution
  vector of \<open>t\<close> was placed and either the task has at least three available days, or it
  has at least one and its strategy is the even one.
\<close>

theorem conservation_amended:
  assumes "distinctKeys plans"
    and "filter (\<lambda>t'. task_id t' = task_id t) tasks = [t]"
    and "task_status t = Pending"
    and "0 < calculateRemainingTaskHours t plans"
  shows "taskHours (task_id t) (generateNewStudyPlan clk tasks st fcs plans)
           \<le> estimatedHours t - skippedHours (task_id t) plans + 3/200
       \<and> (everyAllocationPlaced clk tasks st fcs t plans
            \<and> (3 \<le> length (getAvailableDaysForTask clk t plans st)
                 \<or> 1 \<le> length (getAvailableDaysForTask clk t plans st)
                    \<and> taskStrategy clk (studyPlanMode st)
                          \<lparr>rtask = t, remainingHours = calculateRemainingTaskHours t plans\<rparr>
                        = EvenLoad)
          \<longrightarrow> \<bar>taskHours (task_id t) (generateNewStudyPlan clk tasks st fcs plans)
                 - (estimatedHours t - skippedHours (task_id t) plans)\<bar> \<le> 3/200)"
proof -
  define R where "R = calculateRemainingTaskHours t plans"
  define tr where "tr = \<lparr>rtask = t, remainingHours = R\<rparr>"
  define T where "T = tasksWithRemainingHours tasks plans"
  define tid where "tid = task_id t"
  define n where "n = length (getAvailableDaysForTask clk t plans st)"
  define strat where "strat = taskStrategy clk (studyPlanMode st)"
  define dv where "dv = calculateDailyHoursDistribution R n (strat tr)"
  define G where "G = generateNewStudyPlan clk tasks st fcs plans"
  have R: "0 < R" using assms(4) by (simp add: R_def)
  have single: "filter (\<lambda>t'. task_id (rtask t') = tid) T = [tr]"
    unfolding T_def tid_def tr_def R_def by (rule tasksWithRemaining_single[OF assms(2,3,4)])
  have "tr \<in> set (filter (\<lambda>t'. task_id (rtask t') = tid) T)" by (simp add: single)
  then have trT: "tr \<in> set T" by simp
  then have T: "T \<noteq> []" by auto
  have id: "task_id (rtask tr) = tid" by (simp add: tr_def tid_def)
  have G: "G = scheduleAll clk st fcs strat (taskOrder clk (studyPlanMode st) T) (purgeAll T plans)"
    using T unfolding G_def T_def strat_def by (simp add: generate_unfold)
  have ordered: "filter (\<lambda>t'. task_id (rtask t') = tid) (taskOrder clk (studyPlanMode st) T) = [tr]"
    by (rule filter_taskOrder_single[OF single])
  have gain: "gainBounds tid (purgeAll T plans) G dv"
  proof -
    have "0 < remainingHours tr" using R by (simp add: tr_def)
    from scheduleAll_gain[OF id this, of "purgeAll T plans" plans
        "taskOrder clk (studyPlanMode st) T" clk st fcs strat]
    show ?thesis using ordered
      by (simp add: dayIsLocked_purgeAll G dv_def n_def tr_def)
  qed
  have nonneg: "\<forall>x\<in>set dv. 0 \<le> x"
    unfolding dv_def by (rule calc_nonneg) (use R in simp)
  have pos: "sum_list (filter (\<lambda>h. 0 < h) dv) = sum_list dv"
    by (rule sum_positive_entries[OF nonneg])
  have upper: "sum_list dv \<le> R + 3/200"
    unfolding dv_def by (rule calc_sum_upper) (use R in simp)
  have "R = estimatedHours t - accountedHours tid plans"
    using R unfolding R_def calculateRemainingTaskHours_def tid_def by linarith
  then have before: "taskHours tid (purgeAll T plans) = estimatedHours t - skippedHours tid plans - R"
    using accounted_purged[OF assms(1) trT id] by linarith
  have bound: "taskHours tid G \<le> estimatedHours t - skippedHours tid plans + 3/200"
    using gain before upper pos unfolding gainBounds_def by linarith
  have exact: "\<bar>taskHours tid G - (estimatedHours t - skippedHours tid plans)\<bar> \<le> 3/200"
    if placed: "everyAllocationPlaced clk tasks st fcs t plans"
      and days: "3 \<le> n \<or> 1 \<le> n \<and> strat tr = EvenLoad"
  proof -
    have "taskCount tid G = taskCount tid (purgeAll T plans) + length (filter (\<lambda>h. 0 < h) dv)"
      using placed
      unfolding everyAllocationPlaced_def plannedDistribution_def purgedPlans_def
        G_def T_def tid_def dv_def n_def strat_def tr_def R_def
      by simp
    then have eq: "taskHours tid G = taskHours tid (purgeAll T plans) + sum_list dv"
      using gain pos unfolding gainBounds_def by simp
    have close: "\<bar>sum_list dv - R\<bar> \<le> 3/200"
    proof (cases "3 \<le> n")
      case True
      show ?thesis unfolding dv_def by (rule calc_sum_any[OF _ True]) (use R in simp)
    next
      case False
      then have e: "strat tr = EvenLoad" and n: "0 < n" using days by auto
      have "\<bar>sum_list (calculateDailyHoursDistribution R n EvenLoad) - R\<bar> \<le> 1/200"
        by (rule calc_sum_even[OF _ n]) (use R in simp)
      then show ?thesis unfolding dv_def e by linarith
    qed
    show ?thesis using eq before close by linarith
  qed
  show ?thesis
    using bound exact
    unfolding G_def tid_def n_def strat_def tr_def R_def
    by blast
qed

text \<open>
  On the mixed collection, in the even mode and without commitments, task B of 10 hours
  has one skipped hour and one completed hour; 8 hours remain, all three entries of its
  vector are placed on its 3 available days, and it ends with 9 hours that count: 10 less
  the skipped one.
\<close>

theorem conservation_witness:
  "distinctKeys mixedPlans
   \<and> calculateRemainingTaskHours (mkTask ''B'' 10 23 False) mixedPlans = 8
   \<and> skippedHours ''B'' mixedPlans = 1
   \<and> everyAllocationPlaced exClock [mkTask ''A'' 12 26 True, mkTask ''B'' 10 23 False]
        (exSettings ModeEven) [] (mkTask ''B'' 10 23 False) mixedPlans
   \<and> length (getAvailableDaysForTask exClock (mkTask ''B'' 10 23 False) mixedPlans
        (exSettings ModeEven)) = 3
   \<and> taskHours ''B'' (generateNewStudyPlan exClock
        [mkTask ''A'' 12 26 True, mkTask ''B'' 10 23 False] (exSettings ModeEven) [] mixedPlans)
       \<le> 10 - 1 + 3/200
   \<and> \<bar>taskHours ''B'' (generateNewStudyPlan exClock
        [mkTask ''A'' 12 26 True, mkTask ''B'' 10 23 False] (exSettings ModeEven) [] mixedPlans)
       - (10 - 1)\<bar> \<le> 3/200"
proof -
  let ?t = "mkTask ''B'' 10 23 False"
  let ?tasks = "[mkTask ''A'' 12 26 True, ?t]"
  have a: "distinctKeys mixedPlans" by code_simp
  have b: "filter (\<lambda>t'. task_id t' = task_id ?t) ?tasks = [?t]" by code_simp
  have c: "task_status ?t = Pending" by code_simp
  have r: "calculateRemainingTaskHours ?t mixedPlans = 8" by code_simp
  have d: "0 < calculateRemainingTaskHours ?t mixedPlans" by (simp add: r)
  have s: "skippedHours ''B'' mixedPlans = 1" by code_simp
  have p: "everyAllocationPlaced exClock ?tasks (exSettings ModeEven) [] ?t mixedPlans"
    by code_simp
  have n: "length (getAvailableDaysForTask exClock ?t mixedPlans (exSettings ModeEven)) = 3"
    by code_simp
  have i: "task_id ?t = ''B''" by code_simp
  have e: "estimatedHours ?t = 10" by code_simp
  have n3: "3 \<le> length (getAvailableDaysForTask exClock ?t mixedPlans (exSettings ModeEven))"
    by (simp only: n)
  let ?G = "generateNewStudyPlan exClock ?tasks (exSettings ModeEven) [] mixedPlans"
  note th = conservation_amended[OF a b c d, of exClock "exSettings ModeEven" "[]"]
  have u: "taskHours ''B'' ?G \<le> 10 - 1 + 3/200"
    using th by (simp only: i e s)
  have "\<bar>taskHours (task_id ?t) ?G - (estimatedHours ?t - skippedHours (task_id ?t) mixedPlans)\<bar>
          \<le> 3/200"
    using th p n3 by blast
  then have v: "\<bar>taskHours ''B'' ?G - (10 - 1)\<bar> \<le> 3/200"
    by (simp only: i e s)
  show ?thesis using a r s p n u v by blast
qed

text \<open>
  The claim as stated fails, in both halves. A task of 1.006 hours due today has one
  available day; its vector is rounded to hundredths, so the session placed is of 1.01
  hours, above the estimate. An important task of 10 hours due today, in the Eisenhower
  mode, is front-loaded over its one available day: the vector is \<open>[7]\<close>, the share of the
  first third, and the shares of the empty thirds are dropped; its entry is placed, and
  the task ends with 7 hours.
\<close>

theorem conservation_counterexample:
  "taskHours ''A'' (generateNewStudyPlan exClock [mkTask ''A'' (503/500) 20 False]
       (exSettings ModeEven) [] []) = 101/100
   \<and> estimatedHours (mkTask ''A'' (503/500) 20 False) < 101/100
   \<and> plannedDistribution exClock (exSettings ModeEisenhower) (mkTask ''A'' 10 20 True) [] = [7]
   \<and> everyAllocationPlaced exClock [mkTask ''A'' 10 20 True] (exSettings ModeEisenhower) []
        (mkTask ''A'' 10 20 True) []
   \<and> taskHours ''A'' (generateNewStudyPlan exClock [mkTask ''A'' 10 20 True]
        (exSettings ModeEisenhower) [] []) = 7
   \<and> estimatedHours (mkTask ''A'' 10 20 True) = 10"
  by code_simp

end
